theory Spec2Isabelle
  imports Complex_Main "HOL-Library.Char_ord" "HOL-Library.List_Lexorder"
begin

section \<open>JavaScript values and double-precision arithmetic\<close>

text \<open>
  The statistics handled by the front end are JavaScript numbers read from JSON objects.
  A field of such an object is either missing (\<open>undefined\<close>), \<open>null\<close> or a number.  A
  JavaScript number is an IEEE 754 binary64 value: \<open>NaN\<close>, one of the two infinities, or
  a finite double.  \<open>Fin q\<close> stands for the double nearest to the rational \<open>q\<close>, which is
  how a numeric literal or a JSON number \<open>q\<close> is read; every operation first reads its
  operands in this way (\<open>dbl\<close>), computes the exact result and rounds it to the nearest
  double, a tie going to the even significand, as the hardware does.  The two zeros
  \<open>+0\<close> and \<open>-0\<close>, which are equal under \<open>===\<close>, are not told apart.  Strings,
  booleans and objects in a numeric field are outside the model.
\<close>

datatype jsnum = Fin rat | NaN | PosInf | NegInf

datatype jsval = Undefined | Null | Number jsnum

text \<open>Rounding a rational to the nearest integer, a tie going to the even one.\<close>

definition rne :: "rat \<Rightarrow> int" where
  "rne y =
     (let f = \<lfloor>y\<rfloor>; d = y - of_int f
      in if d < 1 / 2 then f else if 1 / 2 < d then f + 1 else if even f then f else f + 1)"

text \<open>
  The binary exponent of a positive rational \<open>a\<close>: the \<open>e\<close> with \<open>2^e \<le> a < 2^(e+1)\<close>,
  but never below \<open>-1022\<close>, the exponent of the subnormal doubles.
\<close>

function expo_up :: "rat \<Rightarrow> int" where
  "expo_up a = (if a < 2 then 0 else expo_up (a / 2) + 1)"
  by pat_completeness auto
termination
proof (relation "measure (\<lambda>a. nat \<lfloor>a\<rfloor>)")
  show "wf (measure (\<lambda>a::rat. nat \<lfloor>a\<rfloor>))" by simp
next
  fix a :: rat
  assume "\<not> a < 2"
  then have "a / 2 \<le> a - 1" by simp
  then have "\<lfloor>a / 2\<rfloor> \<le> \<lfloor>a - 1\<rfloor>" by (rule floor_mono)
  moreover have "1 \<le> \<lfloor>a\<rfloor>" using \<open>\<not> a < 2\<close> by linarith
  ultimately show "(a / 2, a) \<in> measure (\<lambda>a. nat \<lfloor>a\<rfloor>)" by simp
qed

function expo_down :: "int \<Rightarrow> rat \<Rightarrow> int" where
  "expo_down e a = (if 1 \<le> a \<or> e \<le> - 1022 then e else expo_down (e - 1) (2 * a))"
  by pat_completeness auto
termination
  by (relation "measure (\<lambda>(e, a). nat (e + 1022))") auto

declare expo_up.simps [simp del] expo_down.simps [simp del]

definition expo :: "rat \<Rightarrow> int" where
  "expo a = (if 1 \<le> a then expo_up a else expo_down 0 a)"

text \<open>
  Rounding a positive rational to a multiple of the unit in the last place of its
  binade (53 significant bits), and rounding any rational to a double; a result of
  magnitude \<open>2^1024\<close> or more overflows to an infinity.
\<close>

definition round_abs :: "rat \<Rightarrow> rat" where
  "round_abs a = (let ulp = 2 powi (expo a - 52) in of_int (rne (a / ulp)) * ulp)"

definition rnd :: "rat \<Rightarrow> jsnum" where
  "rnd x =
     (if x = 0 then Fin 0
      else let r = round_abs \<bar>x\<bar>
           in if 2 ^ 1024 \<le> r then (if 0 < x then PosInf else NegInf)
              else Fin (if 0 < x then r else - r))"

text \<open>Reading an operand: \<open>Fin q\<close> is the double nearest to \<open>q\<close>.\<close>

fun dbl :: "jsnum \<Rightarrow> jsnum" where
  "dbl (Fin q) = rnd q"
| "dbl n = n"

text \<open>\<open>ToBoolean\<close>: \<open>undefined\<close>, \<open>null\<close>, \<open>0\<close> and \<open>NaN\<close> are falsy.\<close>

definition truthy :: "jsval \<Rightarrow> bool" where
  "truthy v =
     (case v of
        Undefined \<Rightarrow> False
      | Null \<Rightarrow> False
      | Number n \<Rightarrow> (case dbl n of Fin r \<Rightarrow> r \<noteq> 0 | NaN \<Rightarrow> False | PosInf \<Rightarrow> True | NegInf \<Rightarrow> True))"

text \<open>The operator \<open>a || b\<close>.\<close>

definition jor :: "jsval \<Rightarrow> jsval \<Rightarrow> jsval" where
  "jor a b = (if truthy a then a else b)"

text \<open>\<open>ToNumber\<close>: \<open>undefined\<close> becomes \<open>NaN\<close>, \<open>null\<close> becomes \<open>0\<close>.\<close>

fun ToNumber :: "jsval \<Rightarrow> jsnum" where
  "ToNumber Undefined = NaN"
| "ToNumber Null = Fin 0"
| "ToNumber (Number n) = n"

definition zero :: jsval where
  "zero = Number (Fin 0)"

fun nneg :: "jsnum \<Rightarrow> jsnum" where
  "nneg (Fin r) = Fin (- r)"
| "nneg NaN = NaN"
| "nneg PosInf = NegInf"
| "nneg NegInf = PosInf"

text \<open>
  Addition of two doubles: the exact sum, rounded; \<open>Infinity + -Infinity\<close> is \<open>NaN\<close>,
  and \<open>NaN\<close> propagates.
\<close>

fun add_n :: "jsnum \<Rightarrow> jsnum \<Rightarrow> jsnum" where
  "add_n (Fin x) (Fin y) = rnd (x + y)"
| "add_n NaN _ = NaN"
| "add_n _ NaN = NaN"
| "add_n PosInf NegInf = NaN"
| "add_n NegInf PosInf = NaN"
| "add_n PosInf _ = PosInf"
| "add_n _ PosInf = PosInf"
| "add_n NegInf _ = NegInf"
| "add_n _ NegInf = NegInf"

definition nadd :: "jsnum \<Rightarrow> jsnum \<Rightarrow> jsnum" where
  "nadd a b = add_n (dbl a) (dbl b)"

text \<open>Subtraction \<open>a - b\<close>, which is \<open>a + (-b)\<close>.\<close>

definition nsub :: "jsnum \<Rightarrow> jsnum \<Rightarrow> jsnum" where
  "nsub a b = add_n (dbl a) (nneg (dbl b))"

text \<open>
  Multiplication of two doubles: the exact product, rounded; an infinity times zero is
  \<open>NaN\<close>.
\<close>

definition scale_inf :: "jsnum \<Rightarrow> rat \<Rightarrow> jsnum" where
  "scale_inf i r = (if r = 0 then NaN else if 0 < r then i else nneg i)"

fun mul_n :: "jsnum \<Rightarrow> jsnum \<Rightarrow> jsnum" where
  "mul_n (Fin x) (Fin y) = rnd (x * y)"
| "mul_n NaN _ = NaN"
| "mul_n _ NaN = NaN"
| "mul_n (Fin x) i = scale_inf i x"
| "mul_n i (Fin y) = scale_inf i y"
| "mul_n PosInf PosInf = PosInf"
| "mul_n PosInf NegInf = NegInf"
| "mul_n NegInf PosInf = NegInf"
| "mul_n NegInf NegInf = PosInf"

definition nmul :: "jsnum \<Rightarrow> jsnum \<Rightarrow> jsnum" where
  "nmul a b = mul_n (dbl a) (dbl b)"

text \<open>
  Division of two doubles: the exact quotient, rounded.  A finite number divided by zero
  is \<open>NaN\<close> when the numerator is zero and an infinity otherwise; HOL's own
  \<open>x / 0 = 0\<close> is never used.
\<close>

fun div_n :: "jsnum \<Rightarrow> jsnum \<Rightarrow> jsnum" where
  "div_n (Fin x) (Fin y) =
     (if y = 0 then (if x = 0 then NaN else if 0 < x then PosInf else NegInf)
      else rnd (x / y))"
| "div_n NaN _ = NaN"
| "div_n _ NaN = NaN"
| "div_n (Fin x) PosInf = Fin 0"
| "div_n (Fin x) NegInf = Fin 0"
| "div_n PosInf (Fin y) = (if 0 \<le> y then PosInf else NegInf)"
| "div_n NegInf (Fin y) = (if 0 \<le> y then NegInf else PosInf)"
| "div_n PosInf PosInf = NaN"
| "div_n PosInf NegInf = NaN"
| "div_n NegInf PosInf = NaN"
| "div_n NegInf NegInf = NaN"

definition ndiv :: "jsnum \<Rightarrow> jsnum \<Rightarrow> jsnum" where
  "ndiv a b = div_n (dbl a) (dbl b)"

text \<open>
  \<open>Math.round\<close>: the integer nearest to the double, a tie going towards \<open>+Infinity\<close>;
  the special values are returned unchanged.
\<close>

definition Math_round :: "jsnum \<Rightarrow> jsnum" where
  "Math_round n =
     (case dbl n of
        Fin x \<Rightarrow> Fin (of_int \<lfloor>x + 1 / 2\<rfloor>)
      | NaN \<Rightarrow> NaN
      | PosInf \<Rightarrow> PosInf
      | NegInf \<Rightarrow> NegInf)"

text \<open>The comparison \<open>n > 0\<close> on a number, and on a field value (false for \<open>undefined\<close>,
  \<open>null\<close> and \<open>NaN\<close>).\<close>

definition ngt0 :: "jsnum \<Rightarrow> bool" where
  "ngt0 n = (case dbl n of Fin r \<Rightarrow> 0 < r | PosInf \<Rightarrow> True | NaN \<Rightarrow> False | NegInf \<Rightarrow> False)"

definition gt0 :: "jsval \<Rightarrow> bool" where
  "gt0 v = (case v of Number n \<Rightarrow> ngt0 n | Undefined \<Rightarrow> False | Null \<Rightarrow> False)"

section \<open>Fantasy points (\<open>dataUtils.calculateFantasyPoints\<close>)\<close>

record player =
  passing_yards :: jsval
  passing_tds :: jsval
  interceptions :: jsval
  rushing_yards :: jsval
  rushing_tds :: jsval
  receiving_yards :: jsval
  receiving_tds :: jsval
  receptions :: jsval
  fumbles_lost :: jsval

text \<open>
  \<open>stat v c\<close> is the source expression \<open>(v || 0) * c\<close>, and \<open>points += e\<close> is
  \<open>nadd points e\<close>.  The second argument \<open>isPPR\<close> has the default \<open>true\<close>, used when the
  caller passes nothing (\<open>None\<close>).
\<close>

definition stat :: "jsval \<Rightarrow> jsnum \<Rightarrow> jsnum" where
  "stat v c = nmul (ToNumber (jor v zero)) c"

definition calculateFantasyPoints :: "player \<Rightarrow> bool option \<Rightarrow> jsnum" where
  "calculateFantasyPoints p arg =
     (let isPPR = (case arg of None \<Rightarrow> True | Some b \<Rightarrow> b);
          points = Fin 0;
          points = nadd points (stat (passing_yards p) (Fin (4 / 100)));
          points = nadd points (stat (passing_tds p) (Fin 4));
          points = nadd points (stat (interceptions p) (Fin (- 1)));
          points = nadd points (stat (rushing_yards p) (Fin (1 / 10)));
          points = nadd points (stat (rushing_tds p) (Fin 6));
          points = nadd points (stat (receiving_yards p) (Fin (1 / 10)));
          points = nadd points (stat (receiving_tds p) (Fin 6));
          points = nadd points (stat (receptions p) (if isPPR then Fin 1 else Fin (1 / 2)));
          points = nadd points (stat (fumbles_lost p) (Fin (- 1)))
      in ndiv (Math_round (nmul points (Fin 10))) (Fin 10))"

text \<open>
  The scoring rule as the specification writes it, exactly, over the rational value of
  each field (a missing, \<open>null\<close> or special field counting as \<open>0\<close>), for a reception
  multiplier \<open>ppr_value\<close>.
\<close>

fun val :: "jsval \<Rightarrow> rat" where
  "val (Number (Fin r)) = r"
| "val _ = 0"

definition spec_fantasy_points :: "player \<Rightarrow> rat \<Rightarrow> rat" where
  "spec_fantasy_points p ppr_value =
     4 / 100 * val (passing_yards p) + 4 * val (passing_tds p) - 1 * val (interceptions p)
     + 1 / 10 * val (rushing_yards p) + 6 * val (rushing_tds p)
     + 1 / 10 * val (receiving_yards p) + 6 * val (receiving_tds p)
     + ppr_value * val (receptions p) - 1 * val (fumbles_lost p)"

text \<open>
  The same rule evaluated from left to right in double-precision arithmetic, every
  product and every sum rounded to a double.  \<open>read0\<close> reads a field as a number, a
  missing, \<open>null\<close> or \<open>NaN\<close> field counting as \<open>0\<close>.
\<close>

fun read0 :: "jsval \<Rightarrow> jsnum" where
  "read0 Undefined = Fin 0"
| "read0 Null = Fin 0"
| "read0 (Number NaN) = Fin 0"
| "read0 (Number n) = n"

definition formula_double :: "player \<Rightarrow> rat \<Rightarrow> jsnum" where
  "formula_double p ppr_value =
     nsub
      (nadd
        (nadd
          (nadd
            (nadd
              (nadd
                (nsub
                  (nadd (nmul (Fin (4 / 100)) (read0 (passing_yards p)))
                        (nmul (Fin 4) (read0 (passing_tds p))))
                  (nmul (Fin 1) (read0 (interceptions p))))
                (nmul (Fin (1 / 10)) (read0 (rushing_yards p))))
              (nmul (Fin 6) (read0 (rushing_tds p))))
            (nmul (Fin (1 / 10)) (read0 (receiving_yards p))))
          (nmul (Fin 6) (read0 (receiving_tds p))))
        (nmul (Fin ppr_value) (read0 (receptions p))))
      (nmul (Fin 1) (read0 (fumbles_lost p)))"

text \<open>The multiplier the code applies to receptions for each setting of \<open>isPPR\<close>.\<close>

definition ppr_of :: "bool option \<Rightarrow> rat" where
  "ppr_of arg = (case arg of Some False \<Rightarrow> 1 / 2 | _ \<Rightarrow> 1)"

text \<open>
  A field is within \<open>bound\<close> when it is missing, \<open>null\<close>, \<open>NaN\<close> or a finite number of
  magnitude at most \<open>bound\<close>.
\<close>

fun field_within :: "rat \<Rightarrow> jsval \<Rightarrow> bool" where
  "field_within bound (Number (Fin q)) = (\<bar>q\<bar> \<le> bound)"
| "field_within bound (Number PosInf) = False"
| "field_within bound (Number NegInf) = False"
| "field_within bound _ = True"

definition stats_within :: "rat \<Rightarrow> player \<Rightarrow> bool" where
  "stats_within bound p =
     (field_within bound (passing_yards p) \<and> field_within bound (passing_tds p)
      \<and> field_within bound (interceptions p) \<and> field_within bound (rushing_yards p)
      \<and> field_within bound (rushing_tds p) \<and> field_within bound (receiving_yards p)
      \<and> field_within bound (receiving_tds p) \<and> field_within bound (receptions p)
      \<and> field_within bound (fumbles_lost p))"

text \<open>Replacing a missing or \<open>null\<close> field by the number \<open>0\<close>.\<close>

fun or_zero :: "jsval \<Rightarrow> jsval" where
  "or_zero Undefined = Number (Fin 0)"
| "or_zero Null = Number (Fin 0)"
| "or_zero (Number n) = Number n"

definition zero_missing :: "player \<Rightarrow> player" where
  "zero_missing p =
     \<lparr>passing_yards = or_zero (passing_yards p), passing_tds = or_zero (passing_tds p),
      interceptions = or_zero (interceptions p), rushing_yards = or_zero (rushing_yards p),
      rushing_tds = or_zero (rushing_tds p), receiving_yards = or_zero (receiving_yards p),
      receiving_tds = or_zero (receiving_tds p), receptions = or_zero (receptions p),
      fumbles_lost = or_zero (fumbles_lost p)\<rparr>"

text \<open>Records used as concrete inputs.\<close>

definition no_stats :: player where
  "no_stats =
     \<lparr>passing_yards = zero, passing_tds = zero, interceptions = zero, rushing_yards = zero,
      rushing_tds = zero, receiving_yards = zero, receiving_tds = zero, receptions = zero,
      fumbles_lost = zero\<rparr>"

definition only_receptions :: "rat \<Rightarrow> player" where
  "only_receptions r = no_stats\<lparr>receptions := Number (Fin r)\<rparr>"

definition huge_stat :: rat where
  "huge_stat = 2 ^ 1023"

definition stat_bound :: rat where
  "stat_bound = 2 ^ 900"

definition round_trip_player :: player where
  "round_trip_player =
     no_stats\<lparr>passing_yards := Number (Fin 300), passing_tds := Number (Fin 2),
       interceptions := Number (Fin 1)\<rparr>"

section \<open>The in-memory response cache (\<open>ApiCache\<close>)\<close>

text \<open>
  The two \<open>Map\<close>s of the class, keyed by the cache-key string.  Times are the integer
  milliseconds of \<open>Date.now()\<close>, passed in by the caller of each operation.
\<close>

record 'v ApiCache =
  cache :: "string \<rightharpoonup> 'v"
  timestamps :: "string \<rightharpoonup> int"

definition ApiCache_new :: "'v ApiCache" where
  "ApiCache_new = \<lparr>cache = Map.empty, timestamps = Map.empty\<rparr>"

text \<open>
  \<open>CACHE_TTL = parseInt(env) || 300000\<close>: the argument is the parsed environment value,
  \<open>None\<close> when \<open>parseInt\<close> yields \<open>NaN\<close>; \<open>0\<close> is falsy as well.
\<close>

definition CACHE_TTL :: "int option \<Rightarrow> int" where
  "CACHE_TTL env = (case env of None \<Rightarrow> 300000 | Some n \<Rightarrow> if n = 0 then 300000 else n)"

definition cache_delete :: "string \<Rightarrow> 'v ApiCache \<Rightarrow> 'v ApiCache" where
  "cache_delete key c = c\<lparr>cache := (cache c)(key := None), timestamps := (timestamps c)(key := None)\<rparr>"

text \<open>
  \<open>get\<close> returns \<open>None\<close> for the source's \<open>null\<close>.  The test \<open>!timestamp\<close> holds for a
  missing timestamp and for the timestamp \<open>0\<close>.
\<close>

definition ApiCache_get :: "int \<Rightarrow> string \<Rightarrow> int \<Rightarrow> 'v ApiCache \<Rightarrow> 'v option \<times> 'v ApiCache" where
  "ApiCache_get ttl key now c =
     (case timestamps c key of
        None \<Rightarrow> (None, cache_delete key c)
      | Some timestamp \<Rightarrow>
          if timestamp = 0 \<or> now - timestamp > ttl then (None, cache_delete key c)
          else (cache c key, c))"

definition ApiCache_set :: "string \<Rightarrow> 'v \<Rightarrow> int \<Rightarrow> 'v ApiCache \<Rightarrow> 'v ApiCache" where
  "ApiCache_set key v now c =
     c\<lparr>cache := (cache c)(key \<mapsto> v), timestamps := (timestamps c)(key \<mapsto> now)\<rparr>"

definition ApiCache_clear :: "'v ApiCache \<Rightarrow> 'v ApiCache" where
  "ApiCache_clear c = c\<lparr>cache := Map.empty, timestamps := Map.empty\<rparr>"

text \<open>A history of cache operations, applied from left to right.\<close>

datatype 'v cache_op = OpGet string int | OpSet string 'v int | OpClear

fun apply_cache_op :: "int \<Rightarrow> 'v ApiCache \<Rightarrow> 'v cache_op \<Rightarrow> 'v ApiCache" where
  "apply_cache_op ttl c (OpGet key now) = snd (ApiCache_get ttl key now c)"
| "apply_cache_op ttl c (OpSet key v now) = ApiCache_set key v now c"
| "apply_cache_op ttl c OpClear = ApiCache_clear c"

definition run_cache :: "int \<Rightarrow> 'v cache_op list \<Rightarrow> 'v ApiCache \<Rightarrow> 'v ApiCache" where
  "run_cache ttl ops c = foldl (apply_cache_op ttl) c ops"

fun sets_key :: "string \<Rightarrow> 'v cache_op \<Rightarrow> bool" where
  "sets_key key (OpSet k v now) = (k = key)"
| "sets_key key _ = False"

section \<open>Cache keys (\<open>getCacheKey\<close>)\<close>

text \<open>
  A parameter object is the list of its own properties in insertion order, with distinct
  names; a value stands for its string conversion, which is what \<open>URLSearchParams\<close>
  stores.  Strings are byte strings, so the order of \<open>sort()\<close> is the lexicographic
  order on bytes.

  An object enumerates its array-index names first, in ascending numeric order, and then
  the other names in insertion order.
\<close>

type_synonym obj = "(string \<times> string) list"

definition is_digit :: "char \<Rightarrow> bool" where
  "is_digit c = (c \<in> set ''0123456789'')"

definition digits_value :: "string \<Rightarrow> nat" where
  "digits_value s = foldl (\<lambda>n c. 10 * n + (of_char c - 48)) 0 s"

definition is_array_index :: "string \<Rightarrow> bool" where
  "is_array_index s =
     (s \<noteq> [] \<and> list_all is_digit s \<and> (length s = 1 \<or> \<not> (case s of [] \<Rightarrow> False | c # _ \<Rightarrow> c = CHR ''0''))
      \<and> digits_value s \<le> 4294967294)"

definition own_keys :: "string list \<Rightarrow> string list" where
  "own_keys ks =
     sort_key digits_value (filter is_array_index ks) @ filter (\<lambda>k. \<not> is_array_index k) ks"

definition Object_keys :: "obj \<Rightarrow> string list" where
  "Object_keys ob = own_keys (map fst ob)"

text \<open>\<open>ob[key]\<close>; a missing property reads as \<open>undefined\<close>.\<close>

definition obj_get :: "obj \<Rightarrow> string \<Rightarrow> string" where
  "obj_get ob key = (case map_of ob key of None \<Rightarrow> ''undefined'' | Some v \<Rightarrow> v)"

text \<open>\<open>ob[key] = v\<close>: an existing property keeps its place, a new one goes last.\<close>

fun obj_put :: "string \<Rightarrow> string \<Rightarrow> obj \<Rightarrow> obj" where
  "obj_put key v [] = [(key, v)]"
| "obj_put key v ((k, w) # ob) = (if k = key then (k, v) # ob else (k, w) # obj_put key v ob)"

text \<open>
  The \<open>application/x-www-form-urlencoded\<close> serialisation of \<open>URLSearchParams.toString()\<close>:
  letters, digits and \<open>*-._\<close> stay, a space becomes \<open>+\<close>, any other byte becomes
  \<open>%XX\<close>.
\<close>

definition hex_digit :: "nat \<Rightarrow> char" where
  "hex_digit n = ''0123456789ABCDEF'' ! (n mod 16)"

definition urlencode_byte :: "char \<Rightarrow> string" where
  "urlencode_byte c =
     (if c \<in> set ''abcdefghijklmnopqrstuvwxyzABCDEFGHIJKLMNOPQRSTUVWXYZ0123456789*-._'' then [c]
      else if c = CHR '' '' then ''+''
      else [CHR ''%'', hex_digit (of_char c div 16), hex_digit (of_char c)])"

definition urlencode :: "string \<Rightarrow> string" where
  "urlencode s = concat (map urlencode_byte s)"

fun join_amp :: "string list \<Rightarrow> string" where
  "join_amp [] = []"
| "join_amp [x] = x"
| "join_amp (x # y # xs) = x @ ''&'' @ join_amp (y # xs)"

definition URLSearchParams_toString :: "obj \<Rightarrow> string" where
  "URLSearchParams_toString ob =
     join_amp (map (\<lambda>k. urlencode k @ ''='' @ urlencode (obj_get ob k)) (Object_keys ob))"

definition getCacheKey :: "string \<Rightarrow> obj \<Rightarrow> string" where
  "getCacheKey url params =
     (let sortedParams =
            foldl (\<lambda>result key. obj_put key (obj_get params key) result) [] (sort (Object_keys params))
      in url @ ''?'' @ URLSearchParams_toString sortedParams)"

section \<open>Requests through the cache (\<open>apiRequest\<close>, \<open>refreshData\<close>)\<close>

text \<open>
  A response body is a JSON value; \<open>if (cachedData)\<close> tests its truthiness.  The
  number \<open>JNum q\<close> is read as the double nearest to \<open>q\<close>.
\<close>

datatype json =
    JNull
  | JBool bool
  | JNum rat
  | JStr string
  | JArr "json list"
  | JObj "(string \<times> json) list"

fun truthy_json :: "json \<Rightarrow> bool" where
  "truthy_json JNull = False"
| "truthy_json (JBool b) = b"
| "truthy_json (JNum r) = (rnd r \<noteq> Fin 0)"
| "truthy_json (JStr s) = (s \<noteq> [])"
| "truthy_json (JArr xs) = True"
| "truthy_json (JObj kvs) = True"

text \<open>
  What the HTTP client hands to the response interceptor: a fulfilled response with its
  status and body, or a rejection carrying \<open>error.response?.status\<close>, \<open>error.code\<close> and
  \<open>error.message\<close>.
\<close>

record axios_error =
  status :: "int option"
  code :: "string option"
  message :: string

datatype http_outcome = Fulfilled int json | Rejected axios_error

datatype js_error = Error string | AxiosError axios_error

text \<open>The rejection handler of \<open>apiClient.interceptors.response\<close>; it always throws.\<close>

definition response_rejected :: "axios_error \<Rightarrow> js_error" where
  "response_rejected error =
     (if status error = Some 404 then Error ''Data not found''
      else if (case status error of None \<Rightarrow> False | Some st \<Rightarrow> st \<ge> 500)
        then Error ''Server error. Please try again later.''
      else if code error = Some ''ECONNABORTED''
        then Error ''Request timeout. Please check your connection.''
      else AxiosError error)"

text \<open>
  \<open>apiRequest\<close>.  \<open>http\<close> is the server as seen through \<open>apiClient.get\<close>; \<open>now\<close> is the
  clock when the cache is read and \<open>now'\<close> the clock when the response is stored.  A thrown
  error is \<open>Inl\<close>; the \<open>catch\<close> block logs and throws the same error again.
\<close>

definition apiRequest ::
  "int \<Rightarrow> (string \<Rightarrow> obj \<Rightarrow> http_outcome) \<Rightarrow> string \<Rightarrow> obj \<Rightarrow> bool \<Rightarrow> int \<Rightarrow> int
     \<Rightarrow> json ApiCache \<Rightarrow> (js_error + json) \<times> json ApiCache" where
  "apiRequest ttl http url params useCache now now' c =
     (let cacheKey = getCacheKey url params;
          (cachedData, c1) = (if useCache then ApiCache_get ttl cacheKey now c else (None, c));
          request =
            (case http url params of
               Rejected error \<Rightarrow> (Inl (response_rejected error), c1)
             | Fulfilled st data \<Rightarrow>
                 (Inr data, if useCache \<and> st = 200 then ApiCache_set cacheKey data now' c1 else c1))
      in case cachedData of
           None \<Rightarrow> request
         | Some d \<Rightarrow> if truthy_json d then (Inr d, c1) else request)"

text \<open>
  \<open>apiService.refreshData\<close>: the argument is the outcome of the \<open>POST\<close>.  A rejected
  \<open>POST\<close> throws before \<open>cache.clear()\<close> is reached.
\<close>

definition refreshData :: "http_outcome \<Rightarrow> json ApiCache \<Rightarrow> (js_error + json) \<times> json ApiCache" where
  "refreshData post c =
     (case post of
        Rejected error \<Rightarrow> (Inl (response_rejected error), c)
      | Fulfilled st data \<Rightarrow> (Inr data, ApiCache_clear c))"

text \<open>
  The cache entry that \<open>apiRequest\<close> serves without contacting the server: a live
  entry whose value is truthy, when the cache is in use.
\<close>

definition served :: "int \<Rightarrow> string \<Rightarrow> obj \<Rightarrow> bool \<Rightarrow> int \<Rightarrow> json ApiCache \<Rightarrow> json option" where
  "served ttl url params useCache now c =
     (if useCache
      then (case fst (ApiCache_get ttl (getCacheKey url params) now c) of
              None \<Rightarrow> None
            | Some d \<Rightarrow> if truthy_json d then Some d else None)
      else None)"

text \<open>Concrete servers and a concrete rejection used as inputs.\<close>

definition not_found :: axios_error where
  "not_found =
     \<lparr>status = Some 404, code = Some ''ERR_BAD_REQUEST'',
      message = ''Request failed with status code 404''\<rparr>"

definition server_404 :: "string \<Rightarrow> obj \<Rightarrow> http_outcome" where
  "server_404 url params = Rejected not_found"

definition server_empty :: "string \<Rightarrow> obj \<Rightarrow> http_outcome" where
  "server_empty url params = Fulfilled 200 (JArr [])"

definition season_query :: obj where
  "season_query = [(''season'', ''2025''), (''page'', ''1'')]"

section \<open>Aggregating weeks (\<open>AggregateDataTable.fetchData\<close>)\<close>

text \<open>
  One entry of \<open>player.weeks\<close> is \<open>null\<close> (\<open>None\<close>) or an object whose four sections
  \<open>misc\<close>, \<open>passing\<close>, \<open>rushing\<close> and \<open>receiving\<close> may each be missing.  The field
  \<open>cmpAtt\<close> is \<open>Some s\<close> when it holds a string and \<open>None\<close> otherwise.
\<close>

record misc_stats =
  misc_fpts :: jsval
  misc_num :: jsval

record passing_stats =
  pass_yds :: jsval
  pass_td :: jsval
  pass_int :: jsval
  pass_cmpAtt :: "string option"

record rushing_stats =
  rush_att :: jsval
  rush_yds :: jsval
  rush_td :: jsval

record receiving_stats =
  recv_tgts :: jsval
  recv_rec :: jsval
  recv_yds :: jsval
  recv_td :: jsval

record week =
  misc :: "misc_stats option"
  passing :: "passing_stats option"
  rushing :: "rushing_stats option"
  receiving :: "receiving_stats option"

record ident =
  id' :: string
  name :: string
  pos :: string
  team :: string

record raw_player = ident +
  weeks :: "week option list option"

datatype cmpAtt_text = Dash | CmpAtt jsnum jsnum

record agg_row = ident +
  games :: nat
  avgFpts :: jsnum
  totalFpts :: jsnum
  avgSnaps :: jsnum
  cmpAtt :: cmpAtt_text
  passYds :: jsnum
  passTd :: jsnum
  int' :: jsnum
  rushAtt :: jsnum
  rushYds :: jsnum
  rushTd :: jsnum
  tgts :: jsnum
  rec :: jsnum
  recYds :: jsnum
  recTd :: jsnum

text \<open>Optional chaining \<open>section?.field\<close>.\<close>

definition opt_chain :: "'s option \<Rightarrow> ('s \<Rightarrow> jsval) \<Rightarrow> jsval" where
  "opt_chain sect field = (case sect of None \<Rightarrow> Undefined | Some x \<Rightarrow> field x)"

text \<open>The filter predicate of \<open>gamesPlayed\<close>.\<close>

definition counts_as_game :: "week option \<Rightarrow> bool" where
  "counts_as_game w =
     (case w of
        None \<Rightarrow> False
      | Some wk \<Rightarrow>
          gt0 (opt_chain (misc wk) misc_fpts) \<or> gt0 (opt_chain (rushing wk) rush_yds)
          \<or> gt0 (opt_chain (receiving wk) recv_yds) \<or> gt0 (opt_chain (passing wk) pass_yds))"

text \<open>The running totals of the \<open>forEach\<close> loop.\<close>

record totals =
  total_fpts :: jsnum
  total_snaps :: jsnum
  total_pass_yds :: jsnum
  total_pass_td :: jsnum
  total_int :: jsnum
  total_cmp :: jsnum
  total_att :: jsnum
  total_rush_att :: jsnum
  total_rush_yds :: jsnum
  total_rush_td :: jsnum
  total_tgts :: jsnum
  total_rec :: jsnum
  total_rec_yds :: jsnum
  total_rec_td :: jsnum

definition totals0 :: totals where
  "totals0 =
     \<lparr>total_fpts = Fin 0, total_snaps = Fin 0, total_pass_yds = Fin 0, total_pass_td = Fin 0,
      total_int = Fin 0, total_cmp = Fin 0, total_att = Fin 0, total_rush_att = Fin 0,
      total_rush_yds = Fin 0, total_rush_td = Fin 0, total_tgts = Fin 0, total_rec = Fin 0,
      total_rec_yds = Fin 0, total_rec_td = Fin 0\<rparr>"

text \<open>\<open>total += v || 0\<close>.\<close>

definition tally :: "jsnum \<Rightarrow> jsval \<Rightarrow> jsnum" where
  "tally acc v = nadd acc (ToNumber (jor v zero))"

text \<open>\<open>s.split('-')\<close>.\<close>

fun split_dash :: "string \<Rightarrow> string list" where
  "split_dash [] = [[]]"
| "split_dash (c # cs) =
     (if c = CHR ''-'' then [] # split_dash cs
      else (case split_dash cs of [] \<Rightarrow> [[c]] | x # xs \<Rightarrow> (c # x) # xs))"

text \<open>
  The pair \<open>[cmp, att]\<close> taken from \<open>cmpAtt.split('-').map(Number)\<close>; a missing element
  is \<open>undefined\<close>.  \<open>toNum\<close> is the conversion \<open>Number\<close> applied to a string.
\<close>

definition cmp_att_pair :: "(string \<Rightarrow> jsnum) \<Rightarrow> string \<Rightarrow> jsval \<times> jsval" where
  "cmp_att_pair toNum s =
     (case map toNum (split_dash s) of
        [] \<Rightarrow> (Undefined, Undefined)
      | [x] \<Rightarrow> (Number x, Undefined)
      | x # y # _ \<Rightarrow> (Number x, Number y))"

definition add_cmpAtt :: "(string \<Rightarrow> jsnum) \<Rightarrow> passing_stats option \<Rightarrow> totals \<Rightarrow> totals" where
  "add_cmpAtt toNum sect t =
     (case sect of
        None \<Rightarrow> t
      | Some ps \<Rightarrow>
          (case pass_cmpAtt ps of
             None \<Rightarrow> t
           | Some s \<Rightarrow>
               if s = [] then t
               else (let (cmp, att) = cmp_att_pair toNum s
                     in t\<lparr>total_cmp := tally (total_cmp t) cmp, total_att := tally (total_att t) att\<rparr>)))"

definition add_week :: "(string \<Rightarrow> jsnum) \<Rightarrow> totals \<Rightarrow> week option \<Rightarrow> totals" where
  "add_week toNum t w =
     (case w of
        None \<Rightarrow> t
      | Some wk \<Rightarrow>
          add_cmpAtt toNum (passing wk)
            (t\<lparr>total_fpts := tally (total_fpts t) (opt_chain (misc wk) misc_fpts),
               total_snaps := tally (total_snaps t) (opt_chain (misc wk) misc_num),
               total_pass_yds := tally (total_pass_yds t) (opt_chain (passing wk) pass_yds),
               total_pass_td := tally (total_pass_td t) (opt_chain (passing wk) pass_td),
               total_int := tally (total_int t) (opt_chain (passing wk) pass_int),
               total_rush_att := tally (total_rush_att t) (opt_chain (rushing wk) rush_att),
               total_rush_yds := tally (total_rush_yds t) (opt_chain (rushing wk) rush_yds),
               total_rush_td := tally (total_rush_td t) (opt_chain (rushing wk) rush_td),
               total_tgts := tally (total_tgts t) (opt_chain (receiving wk) recv_tgts),
               total_rec := tally (total_rec t) (opt_chain (receiving wk) recv_rec),
               total_rec_yds := tally (total_rec_yds t) (opt_chain (receiving wk) recv_yds),
               total_rec_td := tally (total_rec_td t) (opt_chain (receiving wk) recv_td)\<rparr>))"

text \<open>\<open>player.weeks || []\<close>.\<close>

definition weeks_of :: "raw_player \<Rightarrow> week option list" where
  "weeks_of player = (case weeks player of None \<Rightarrow> [] | Some ws \<Rightarrow> ws)"

text \<open>The callback of \<open>rawData.map\<close>.\<close>

definition aggregate :: "(string \<Rightarrow> jsnum) \<Rightarrow> raw_player \<Rightarrow> agg_row" where
  "aggregate toNum player =
     (let ws = weeks_of player;
          gamesPlayed = length (filter counts_as_game ws);
          t = foldl (add_week toNum) totals0 ws
      in \<lparr>id' = id' player, name = name player, pos = pos player, team = team player,
          games = gamesPlayed,
          avgFpts = (if gamesPlayed > 0 then ndiv (total_fpts t) (Fin (of_nat gamesPlayed)) else Fin 0),
          totalFpts = total_fpts t,
          avgSnaps = (if gamesPlayed > 0 then ndiv (total_snaps t) (Fin (of_nat gamesPlayed)) else Fin 0),
          cmpAtt = (if ngt0 (total_att t) then CmpAtt (total_cmp t) (total_att t) else Dash),
          passYds = total_pass_yds t, passTd = total_pass_td t, int' = total_int t,
          rushAtt = total_rush_att t, rushYds = total_rush_yds t, rushTd = total_rush_td t,
          tgts = total_tgts t, rec = total_rec t, recYds = total_rec_yds t,
          recTd = total_rec_td t\<rparr>)"

text \<open>
  \<open>fetchData\<close>.  The request carries the selected position and season, the weeks
  \<open>weekFrom, ..., weekTo\<close> pushed by the \<open>for\<close> loop, and the team unless it is \<open>All\<close>;
  \<open>backend\<close> is the server as seen through \<open>fetch\<close> and \<open>response.json()\<close>.  The
  aggregated rows are stored; any exception on the way (a rejected \<open>fetch\<close>, a body that
  is not JSON or not an array of player objects) is caught and the table is set to the
  empty list.
\<close>

record query =
  q_position :: string
  q_season :: int
  q_weeks :: "int list"
  q_team :: "string option"


definition request :: "string \<Rightarrow> string \<Rightarrow> int \<Rightarrow> int \<Rightarrow> int \<Rightarrow> query" where
  "request selectedPos selectedTeam season weekFrom weekTo =
     \<lparr>q_position = selectedPos, q_season = season, q_weeks = [weekFrom..weekTo],
      q_team = (if selectedTeam \<noteq> ''All'' then Some selectedTeam else None)\<rparr>"


text \<open>
  The reading of the aggregation that the specification gives.  The value of a
  statistic in one week is the number in the field, a missing week, section or field
  (and a \<open>null\<close> or \<open>NaN\<close> one) counting as \<open>0\<close>; the total over a list of weeks is the
  sum of these values, added from left to right in double-precision arithmetic; a week
  is played when the fantasy points or the passing, rushing or receiving yards of that
  week are positive.
\<close>

definition week_value :: "(week \<Rightarrow> 's option) \<Rightarrow> ('s \<Rightarrow> jsval) \<Rightarrow> week option \<Rightarrow> jsnum" where
  "week_value sect field w =
     (case w of
        None \<Rightarrow> Fin 0
      | Some wk \<Rightarrow> (case sect wk of None \<Rightarrow> Fin 0 | Some x \<Rightarrow> read0 (field x)))"

definition dsum :: "jsnum list \<Rightarrow> jsnum" where
  "dsum xs = foldl nadd (Fin 0) xs"

definition total_of :: "(week \<Rightarrow> 's option) \<Rightarrow> ('s \<Rightarrow> jsval) \<Rightarrow> week option list \<Rightarrow> jsnum" where
  "total_of sect field ws = dsum (map (week_value sect field) ws)"

text \<open>
  The completions and the attempts of one week, read from the string \<open>cmp-att\<close>; a week
  without such a string counts as \<open>0\<close>.
\<close>

definition week_cmp_att :: "(string \<Rightarrow> jsnum) \<Rightarrow> week option \<Rightarrow> jsnum \<times> jsnum" where
  "week_cmp_att toNum w =
     (case w of
        None \<Rightarrow> (Fin 0, Fin 0)
      | Some wk \<Rightarrow>
          (case passing wk of
             None \<Rightarrow> (Fin 0, Fin 0)
           | Some ps \<Rightarrow>
               (case pass_cmpAtt ps of
                  None \<Rightarrow> (Fin 0, Fin 0)
                | Some s \<Rightarrow>
                    if s = [] then (Fin 0, Fin 0)
                    else (read0 (fst (cmp_att_pair toNum s)), read0 (snd (cmp_att_pair toNum s))))))"

definition spec_played :: "week option \<Rightarrow> bool" where
  "spec_played w =
     (ngt0 (week_value misc misc_fpts w) \<or> ngt0 (week_value passing pass_yds w)
      \<or> ngt0 (week_value rushing rush_yds w) \<or> ngt0 (week_value receiving recv_yds w))"

text \<open>Concrete weeks, players and servers used as inputs.\<close>

definition week_a :: week where
  "week_a =
     \<lparr>misc = Some \<lparr>misc_fpts = Number (Fin (1 / 10)), misc_num = Number (Fin 40)\<rparr>,
      passing = None,
      rushing = Some \<lparr>rush_att = Number (Fin 12), rush_yds = Number (Fin 55), rush_td = Number (Fin 1)\<rparr>,
      receiving = Some \<lparr>recv_tgts = Number (Fin 3), recv_rec = Number (Fin 2),
                        recv_yds = Number (Fin 10), recv_td = Null\<rparr>\<rparr>"

definition week_b :: week where
  "week_b =
     \<lparr>misc = Some \<lparr>misc_fpts = Number (Fin (2 / 10)), misc_num = Number (Fin 20)\<rparr>,
      passing = Some \<lparr>pass_yds = Undefined, pass_td = Null, pass_int = Number (Fin 0),
                      pass_cmpAtt = Some ''1-2''\<rparr>,
      rushing = Some \<lparr>rush_att = Number (Fin 6), rush_yds = Number (Fin 20), rush_td = Undefined\<rparr>,
      receiving = None\<rparr>"

definition week_idle :: "rat \<Rightarrow> week" where
  "week_idle snaps =
     \<lparr>misc = Some \<lparr>misc_fpts = Number (Fin 0), misc_num = Number (Fin snaps)\<rparr>,
      passing = None, rushing = None, receiving = None\<rparr>"

definition example_player :: raw_player where
  "example_player =
     \<lparr>id' = ''p1'', name = ''A. Back'', pos = ''RB'', team = ''DET'',
      weeks = Some [Some week_a, None, Some week_b, Some (week_idle 30)]\<rparr>"

definition bench_player :: raw_player where
  "bench_player =
     \<lparr>id' = ''p2'', name = ''B. Guard'', pos = ''RB'', team = ''DET'',
      weeks = Some [Some (week_idle 30), Some (week_idle 25)]\<rparr>"

text \<open>
  A stand-in for \<open>Number\<close> on the strings \<open>1\<close> and \<open>2\<close>, all that the inputs above
  contain.
\<close>

definition digit_Number :: "string \<Rightarrow> jsnum" where
  "digit_Number s = (if s = ''1'' then Fin 1 else if s = ''2'' then Fin 2 else NaN)"


section \<open>The warehouse store\<close>

text \<open>
  Modelled from the spec: the rows of the weekly table.  The Warehouse Store belongs to
  the Python back end, of which the sources hold only the descriptions; the
  specification keys a \<open>WeeklyRecord\<close> by player, season and week and gives it a derived
  \<open>fantasy_points\<close> value.  The weekly table is the list of its rows.
\<close>

record WeeklyRecord =
  wr_player_id :: string
  wr_season :: int
  wr_week :: int
  wr_fantasy_points :: rat

datatype store_error = StoreError

type_synonym store = "WeeklyRecord list"

type_synonym refresh_unit = "int \<times> int"

definition in_unit :: "refresh_unit \<Rightarrow> WeeklyRecord \<Rightarrow> bool" where
  "in_unit u r = (wr_season r = fst u \<and> wr_week r = snd u)"

text \<open>
  Modelled from the spec: the row-by-row write inside the transaction of \<open>commit\<close>, which
  is missing from the sources.  \<open>fail_after = Some n\<close> is the simulated write failure of
  the specification, striking after \<open>n\<close> rows have been written.
\<close>

fun write_rows :: "nat \<Rightarrow> nat option \<Rightarrow> WeeklyRecord list \<Rightarrow> store \<Rightarrow> store_error + store" where
  "write_rows written fail_after [] tbl = Inr tbl"
| "write_rows written fail_after (r # rs) tbl =
     (if fail_after = Some written then Inl StoreError
      else write_rows (Suc written) fail_after rs (tbl @ [r]))"

text \<open>
  Modelled from the spec: \<open>Store.commit\<close>, which is missing from the sources.  The
  specification says that all rows of one (season, week) unit are written as a single
  atomic operation, that a commit for an existing unit replaces the rows of that unit,
  and that a write failure raises \<open>StoreError\<close> and triggers the rollback of the unit's
  partial write.  The transaction starts from the table without the unit's old rows; a
  failed write rolls back to the table as it was, a successful one makes the new table
  visible.
\<close>

definition commit :: "refresh_unit \<Rightarrow> WeeklyRecord list \<Rightarrow> nat option \<Rightarrow> store \<Rightarrow> (store_error + unit) \<times> store" where
  "commit u rows fail_after st =
     (case write_rows 0 fail_after rows (filter (\<lambda>r. \<not> in_unit u r) st) of
        Inl e \<Rightarrow> (Inl e, st)
      | Inr tbl \<Rightarrow> (Inr (), tbl))"

text \<open>
  Modelled from the spec: the read operation \<open>readWeekly(filters)\<close> of the store, which is
  missing from the sources; it returns the visible rows that pass the filters.
\<close>

definition readWeekly :: "(WeeklyRecord \<Rightarrow> bool) \<Rightarrow> store \<Rightarrow> WeeklyRecord list" where
  "readWeekly filters st = filter filters st"

text \<open>Concrete rows used as inputs.\<close>

definition row_of :: "string \<Rightarrow> int \<Rightarrow> rat \<Rightarrow> WeeklyRecord" where
  "row_of pid wk pts =
     \<lparr>wr_player_id = pid, wr_season = 2025, wr_week = wk, wr_fantasy_points = pts\<rparr>"

section \<open>Properties of the rounding to doubles\<close>

lemma floor_rat_numeral: "\<lfloor>numeral a / numeral b :: rat\<rfloor> = numeral a div numeral b"
  using floor_divide_of_int_eq [of "numeral a" "numeral b", where ?'a = rat] by simp

lemma floor_rat_neg_numeral:
  "\<lfloor>- (numeral a / numeral b) :: rat\<rfloor> = - numeral a div numeral b"
  using floor_divide_of_int_eq [of "- numeral a" "numeral b", where ?'a = rat] by simp

lemma floor_rat_one: "\<lfloor>1 / numeral b :: rat\<rfloor> = 1 div numeral b"
  using floor_divide_of_int_eq [of 1 "numeral b", where ?'a = rat] by simp

lemma floor_rat_neg_one: "\<lfloor>- (1 / numeral b) :: rat\<rfloor> = - 1 div numeral b"
  using floor_divide_of_int_eq [of "- 1" "numeral b", where ?'a = rat] by simp

lemmas eval_rnd =
  rnd_def round_abs_def expo_def expo_up.simps expo_down.simps rne_def Let_def floor_rat_numeral
  floor_rat_neg_numeral floor_rat_one floor_rat_neg_one


lemma expo_up_spec:
  "1 \<le> a \<Longrightarrow> 0 \<le> expo_up a \<and> 2 powi expo_up a \<le> a \<and> a < 2 powi (expo_up a + 1)"
proof (induction a rule: expo_up.induct)
  case (1 a)
  show ?case
  proof (cases "a < 2")
    case True
    with "1.prems" show ?thesis by (simp add: expo_up.simps)
  next
    case False
    then have "1 \<le> a / 2" by simp
    with "1.IH" [OF False] have ih: "0 \<le> expo_up (a / 2)"
      "2 powi expo_up (a / 2) \<le> a / 2" "a / 2 < 2 powi (expo_up (a / 2) + 1)"
      by simp_all
    have eq: "expo_up a = expo_up (a / 2) + 1"
      using False by (simp add: expo_up.simps)
    have "2 powi (expo_up (a / 2) + 1) = 2 * (2::rat) powi expo_up (a / 2)"
      by (simp add: power_int_add)
    moreover have "2 powi (expo_up (a / 2) + 1 + 1) = 2 * (2::rat) powi (expo_up (a / 2) + 1)"
      by (simp add: power_int_add)
    ultimately show ?thesis using ih eq by simp
  qed
qed

lemma expo_down_spec:
  "0 < a \<Longrightarrow> a < 2 \<Longrightarrow> - 1022 \<le> e \<Longrightarrow>
   - 1022 \<le> expo_down e a \<and> a * 2 powi e < 2 powi (expo_down e a + 1)
   \<and> (- 1022 < expo_down e a \<longrightarrow> 2 powi expo_down e a \<le> a * 2 powi e)"
proof (induction e a rule: expo_down.induct)
  case (1 e a)
  show ?case
  proof (cases "1 \<le> a \<or> e \<le> - 1022")
    case True
    then have eq: "expo_down e a = e" by (simp add: expo_down.simps)
    have "a * 2 powi e < 2 * 2 powi e"
      using "1.prems"(2) by simp
    moreover have "2 powi (e + 1) = 2 * (2::rat) powi e" by (simp add: power_int_add)
    moreover have "- 1022 < e \<longrightarrow> 2 powi e \<le> a * 2 powi e"
      using True by auto
    ultimately show ?thesis using eq "1.prems"(3) by simp
  next
    case False
    then have a1: "a < 1" and e1: "- 1022 \<le> e - 1" by simp_all
    have eq: "expo_down e a = expo_down (e - 1) (2 * a)"
      using False by (simp add: expo_down.simps)
    have "0 < 2 * a" "2 * a < 2" using "1.prems"(1) a1 by simp_all
    from "1.IH" [OF False this e1]
    have ih: "- 1022 \<le> expo_down (e - 1) (2 * a)"
      "2 * a * 2 powi (e - 1) < 2 powi (expo_down (e - 1) (2 * a) + 1)"
      "- 1022 < expo_down (e - 1) (2 * a) \<longrightarrow> 2 powi expo_down (e - 1) (2 * a) \<le> 2 * a * 2 powi (e - 1)"
      by simp_all
    have "2 * a * 2 powi (e - 1) = a * 2 powi e"
      by (simp add: power_int_diff)
    with ih eq show ?thesis by simp
  qed
qed

lemma expo_spec:
  assumes "0 < a"
  shows "- 1022 \<le> expo a" and "a < 2 powi (expo a + 1)"
    and "- 1022 < expo a \<Longrightarrow> 2 powi expo a \<le> a"
proof -
  have "- 1022 \<le> expo a \<and> a < 2 powi (expo a + 1) \<and> (- 1022 < expo a \<longrightarrow> 2 powi expo a \<le> a)"
  proof (cases "1 \<le> a")
    case True
    with expo_up_spec [OF True] show ?thesis by (simp add: expo_def)
  next
    case False
    then have "a < 2" by simp
    from expo_down_spec [OF assms this, of 0] False show ?thesis by (simp add: expo_def)
  qed
  then show "- 1022 \<le> expo a" and "a < 2 powi (expo a + 1)"
    and "- 1022 < expo a \<Longrightarrow> 2 powi expo a \<le> a" by simp_all
qed


lemma rne_of_int: "rne (of_int k) = k"
  by (simp add: rne_def)

lemma pow2_le_imp_le:
  assumes "(2::rat) powi a \<le> 2 powi b"
  shows "a \<le> b"
proof (rule ccontr)
  assume "\<not> a \<le> b"
  then have "b < a" by simp
  then have "(2::rat) powi b < 2 powi a" by (rule power_int_strict_increasing) simp
  with assms show False by simp
qed

lemma rne_upper: "of_int (rne y) \<le> y + 1 / 2"
proof -
  have "of_int \<lfloor>y\<rfloor> \<le> y" by simp
  then show ?thesis unfolding rne_def Let_def by (auto simp: not_less; linarith)
qed

lemma rne_lower: "y - 1 / 2 \<le> of_int (rne y)"
proof -
  have "y < of_int \<lfloor>y\<rfloor> + 1" by linarith
  then show ?thesis unfolding rne_def Let_def by (auto simp: not_less; linarith)
qed

lemma rne_nonneg: "0 \<le> y \<Longrightarrow> 0 \<le> rne y"
  using rne_lower [of y] by linarith

lemma rne_le_int: "y \<le> of_int K \<Longrightarrow> rne y \<le> K"
proof -
  assume "y \<le> of_int K"
  then have "\<lfloor>y\<rfloor> \<le> K" by (simp add: floor_le_iff)
  show ?thesis
  proof (cases "y = of_int \<lfloor>y\<rfloor>")
    case True
    then have "rne y = \<lfloor>y\<rfloor>" by (metis rne_of_int)
    with \<open>\<lfloor>y\<rfloor> \<le> K\<close> show ?thesis by simp
  next
    case False
    moreover have "of_int \<lfloor>y\<rfloor> \<le> y" by simp
    ultimately have "of_int \<lfloor>y\<rfloor> < y" by (simp only: less_le not_sym simp_thms)
    with \<open>y \<le> of_int K\<close> have "\<lfloor>y\<rfloor> < K" by linarith
    moreover have "rne y \<le> \<lfloor>y\<rfloor> + 1" by (simp add: rne_def Let_def)
    ultimately show ?thesis by simp
  qed
qed

lemma round_abs_exact:
  assumes "a / 2 powi (expo a - 52) = of_int K"
  shows "round_abs a = a"
proof -
  have "round_abs a = of_int K * 2 powi (expo a - 52)"
    by (simp add: round_abs_def Let_def assms rne_of_int)
  also have "\<dots> = a" using assms [symmetric] by simp
  finally show ?thesis .
qed

lemma rnd_pos: "0 < x \<Longrightarrow> round_abs x = x \<Longrightarrow> x < 2 ^ 1024 \<Longrightarrow> rnd x = Fin x"
  by (simp add: rnd_def Let_def)

lemma rnd_neg: "x < 0 \<Longrightarrow> round_abs (- x) = - x \<Longrightarrow> - x < 2 ^ 1024 \<Longrightarrow> rnd x = Fin x"
  by (simp add: rnd_def Let_def)

lemma pos_exact:
  fixes m :: int and j :: int
  assumes m: "0 < m" "m \<le> 2 ^ 53" and j: "- 1074 \<le> j"
  shows "round_abs (of_int m * 2 powi j) = of_int m * 2 powi j"
proof -
  let ?a = "of_int m * 2 powi j :: rat"
  have apos: "0 < ?a" using m(1) by simp
  have ale: "?a \<le> 2 powi (53 + j)"
  proof -
    have "(of_int m :: rat) \<le> 2 ^ 53" using m(2) by (metis of_int_le_iff of_int_numeral of_int_power)
    then have "?a \<le> 2 ^ 53 * 2 powi j" by (simp add: mult_right_mono)
    also have "\<dots> = 2 powi (53 + j)" by (simp add: power_int_add)
    finally show ?thesis .
  qed
  note sp = expo_spec [OF apos]
  consider (sub) "expo ?a = - 1022" | (low) "- 1022 < expo ?a" "expo ?a \<le> 52 + j"
    | (top) "- 1022 < expo ?a" "52 + j < expo ?a"
    using sp(1) by linarith
  then have "\<exists>K. ?a / 2 powi (expo ?a - 52) = of_int K"
  proof cases
    case sub
    have "?a / 2 powi (expo ?a - 52) = of_int m * 2 powi (j + 1074)"
      by (simp add: sub power_int_diff power_int_add field_simps)
    also have "\<dots> = of_int m * 2 ^ nat (j + 1074)"
      using j by (simp add: power_int_def)
    also have "\<dots> = of_int (m * 2 ^ nat (j + 1074))" by simp
    finally show ?thesis by blast
  next
    case low
    then have k: "0 \<le> j - expo ?a + 52" by simp
    have "?a / 2 powi (expo ?a - 52) = of_int m * 2 powi (j - expo ?a + 52)"
      by (simp add: power_int_diff power_int_add field_simps)
    also have "\<dots> = of_int m * 2 ^ nat (j - expo ?a + 52)"
      using k by (simp add: power_int_def)
    also have "\<dots> = of_int (m * 2 ^ nat (j - expo ?a + 52))" by simp
    finally show ?thesis by blast
  next
    case top
    from sp(3) [OF top(1)] ale have "(2::rat) powi expo ?a \<le> 2 powi (53 + j)" by simp
    then have "expo ?a \<le> 53 + j" by (rule pow2_le_imp_le)
    with top(2) have e: "expo ?a = 53 + j" by simp
    from sp(3) [OF top(1)] have "(2::rat) powi (53 + j) \<le> of_int m * 2 powi j" by (simp add: e)
    then have "(2::rat) ^ 53 * 2 powi j \<le> of_int m * 2 powi j" by (simp add: power_int_add)
    then have "(2::rat) ^ 53 \<le> of_int m" by simp
    then have "2 ^ 53 \<le> m" by (metis of_int_le_iff of_int_numeral of_int_power)
    with m(2) have meq: "m = 2 ^ 53" by simp
    have "expo ?a - 52 = j + 1" by (simp add: e)
    then have "?a / 2 powi (expo ?a - 52) = ?a / 2 powi (j + 1)"
      by (simp only:)
    also have "\<dots> = 2 ^ 53 * 2 powi j / 2 powi (j + 1)"
      by (simp add: meq)
    also have "\<dots> = 2 ^ 52" by (simp add: power_int_add)
    also have "\<dots> = of_int (2 ^ 52)" by simp
    finally show ?thesis by blast
  qed
  then obtain K where "?a / 2 powi (expo ?a - 52) = of_int K" ..
  then show ?thesis by (rule round_abs_exact)
qed


lemma rnd_exact:
  fixes m :: int and j :: int
  assumes m: "\<bar>m\<bar> \<le> 2 ^ 53" and j: "- 1074 \<le> j"
    and small: "\<bar>of_int m * 2 powi j :: rat\<bar> < 2 ^ 1024"
  shows "rnd (of_int m * 2 powi j) = Fin (of_int m * 2 powi j)"
proof -
  consider (zero) "m = 0" | (pos) "0 < m" | (neg) "m < 0" by linarith
  then show ?thesis
  proof cases
    case zero
    then show ?thesis by (simp add: rnd_def)
  next
    case pos
    with m have "m \<le> 2 ^ 53" by simp
    from pos_exact [OF pos this j] pos small show ?thesis
      by (intro rnd_pos) (simp_all add: abs_mult)
  next
    case neg
    with m have "0 < - m" "- m \<le> 2 ^ 53" by simp_all
    from pos_exact [OF this j] have "round_abs (- (of_int m * 2 powi j)) = - (of_int m * 2 powi j)"
      by simp
    moreover have "of_int m * 2 powi j < (0::rat)"
      using neg by (simp add: mult_neg_pos)
    moreover have "- (of_int m * 2 powi j) < (2::rat) ^ 1024"
      using small neg by (simp add: abs_mult)
    ultimately show ?thesis by (intro rnd_neg)
  qed
qed

lemma rnd_of_int: "\<bar>k\<bar> \<le> 2 ^ 53 \<Longrightarrow> rnd (of_int k) = Fin (of_int k)"
proof -
  assume k: "\<bar>k\<bar> \<le> 2 ^ 53"
  then have "\<bar>of_int k :: rat\<bar> \<le> 2 ^ 53"
    by (metis of_int_abs of_int_le_iff of_int_numeral of_int_power)
  then have "\<bar>of_int k * 2 powi 0 :: rat\<bar> < 2 ^ 1024" by simp
  from rnd_exact [OF k _ this] show ?thesis by simp
qed

lemma rnd_half_int: "\<bar>k\<bar> \<le> 2 ^ 53 \<Longrightarrow> rnd (of_int k / 2) = Fin (of_int k / 2)"
proof -
  assume k: "\<bar>k\<bar> \<le> 2 ^ 53"
  then have "\<bar>of_int k :: rat\<bar> \<le> 2 ^ 53"
    by (metis of_int_abs of_int_le_iff of_int_numeral of_int_power)
  then have "\<bar>of_int k * 2 powi (- 1) :: rat\<bar> < 2 ^ 1024" by (simp add: abs_mult)
  from rnd_exact [OF k _ this] show ?thesis by simp
qed

lemma round_abs_form:
  assumes "0 < a"
  shows "\<exists>n. 0 \<le> n \<and> n \<le> 2 ^ 53 \<and> round_abs a = of_int n * 2 powi (expo a - 52)"
proof -
  let ?u = "2 powi (expo a - 52) :: rat"
  have upos: "0 < ?u" by simp
  have "a / ?u < 2 powi (expo a + 1) / ?u"
    using expo_spec(2) [OF assms] upos by (simp add: divide_strict_right_mono)
  also have "\<dots> = 2 ^ 53" by (simp add: power_int_diff power_int_add)
  finally have "a / ?u \<le> of_int (2 ^ 53)" by simp
  then have "rne (a / ?u) \<le> 2 ^ 53" by (rule rne_le_int)
  moreover have "0 \<le> rne (a / ?u)" using assms upos by (intro rne_nonneg) simp
  ultimately show ?thesis by (auto simp: round_abs_def Let_def)
qed

lemma round_abs_idem:
  assumes "0 < a" "round_abs a < 2 ^ 1024"
  shows "rnd (round_abs a) = Fin (round_abs a)"
proof -
  from round_abs_form [OF assms(1)] obtain n where n: "0 \<le> n" "n \<le> 2 ^ 53"
    "round_abs a = of_int n * 2 powi (expo a - 52)" by blast
  have "\<bar>n\<bar> \<le> 2 ^ 53" using n by simp
  moreover have "- 1074 \<le> expo a - 52" using expo_spec(1) [OF assms(1)] by simp
  moreover have "\<bar>of_int n * 2 powi (expo a - 52) :: rat\<bar> < 2 ^ 1024"
    using assms(2) n by (simp add: abs_mult)
  ultimately show ?thesis unfolding n(3) by (rule rnd_exact)
qed

lemma rnd_minus: "rnd (- x) = (case rnd x of Fin r \<Rightarrow> Fin (- r) | NaN \<Rightarrow> NaN | PosInf \<Rightarrow> NegInf | NegInf \<Rightarrow> PosInf)"
  by (simp add: rnd_def Let_def)

lemma rnd_idem: "rnd x = Fin r \<Longrightarrow> rnd r = Fin r"
proof -
  assume fin: "rnd x = Fin r"
  consider (zero) "x = 0" | (pos) "0 < x" | (neg) "x < 0" by linarith
  then show ?thesis
  proof cases
    case zero
    with fin show ?thesis by (simp add: rnd_def)
  next
    case pos
    with fin have "round_abs x < 2 ^ 1024" "r = round_abs x"
      by (simp_all add: rnd_def Let_def split: if_splits)
    with round_abs_idem [of x] pos show ?thesis by simp
  next
    case neg
    with fin have small: "round_abs (- x) < 2 ^ 1024" and r: "r = - round_abs (- x)"
      by (simp_all add: rnd_def Let_def split: if_splits)
    from neg have "0 < - x" by simp
    from round_abs_idem [OF this small] have "rnd (round_abs (- x)) = Fin (round_abs (- x))" .
    then show ?thesis unfolding r by (simp add: rnd_minus)
  qed
qed

lemma round_abs_bound:
  assumes "0 < a"
  shows "round_abs a \<le> 2 * a + 1"
proof -
  let ?u = "2 powi (expo a - 52) :: rat"
  have upos: "0 < ?u" by simp
  have "of_int (rne (a / ?u)) * ?u \<le> (a / ?u + 1 / 2) * ?u"
    using rne_upper [of "a / ?u"] upos by (simp add: mult_right_mono)
  also have "\<dots> = a + ?u / 2" using upos by (simp add: field_simps)
  finally have r: "round_abs a \<le> a + ?u / 2" by (simp add: round_abs_def Let_def)
  have "?u \<le> a + 1"
  proof (cases "- 1022 < expo a")
    case True
    have "?u \<le> 2 powi expo a" by (rule power_int_increasing) simp_all
    also have "\<dots> \<le> a" by (rule expo_spec(3) [OF assms True])
    finally show ?thesis by simp
  next
    case False
    with expo_spec(1) [OF assms] have "expo a = - 1022" by simp
    then have "?u = 2 powi (- 1074)" by simp
    also have "\<dots> \<le> 1" by (simp add: power_int_minus field_simps)
    finally show ?thesis using assms by simp
  qed
  with r assms show ?thesis by simp
qed

lemma rnd_bound:
  assumes "\<bar>x\<bar> \<le> M" "M \<le> 2 ^ 1000"
  shows "\<exists>r. rnd x = Fin r \<and> \<bar>r\<bar> \<le> 2 * M + 1"
proof (cases "x = 0")
  case True
  with assms(1) show ?thesis by (simp add: rnd_def)
next
  case False
  then have pos: "0 < \<bar>x\<bar>" by simp
  from round_abs_bound [OF pos] assms(1) have b: "round_abs \<bar>x\<bar> \<le> 2 * M + 1" by simp
  have "2 * M + 1 < (2::rat) ^ 1024" using assms(2) by simp
  with b have small: "\<not> 2 ^ 1024 \<le> round_abs \<bar>x\<bar>" by simp
  have nonneg: "0 \<le> round_abs \<bar>x\<bar>"
    using round_abs_form [OF pos] by (auto simp: zero_le_mult_iff)
  show ?thesis
    using False small b nonneg by (auto simp: rnd_def Let_def)
qed


lemma rnd_not_NaN: "rnd x \<noteq> NaN"
  by (simp add: rnd_def Let_def)

lemma rnd_0: "rnd 0 = Fin 0"
  by (simp add: rnd_def)

lemma dbl_rnd: "dbl (rnd x) = rnd x"
proof (cases "rnd x")
  case (Fin r)
  then show ?thesis using rnd_idem [OF Fin] by simp
qed simp_all

lemma dbl_dbl: "dbl (dbl x) = dbl x"
  by (cases x) (simp_all add: dbl_rnd)

lemma dbl_add_n: "dbl (add_n a b) = add_n a b"
  by (cases a; cases b) (simp_all add: dbl_rnd)

lemma dbl_mul_n: "dbl (mul_n a b) = mul_n a b"
  by (cases a; cases b) (simp_all add: dbl_rnd scale_inf_def)

lemma dbl_div_n: "dbl (div_n a b) = div_n a b"
  by (cases a; cases b) (simp_all add: dbl_rnd rnd_0)

lemma dbl_nneg: "dbl y = y \<Longrightarrow> dbl (nneg y) = nneg y"
  by (cases y) (simp_all add: rnd_minus)

lemma dbl_nneg_mul_n: "dbl (nneg (mul_n a b)) = nneg (mul_n a b)"
  by (rule dbl_nneg) (rule dbl_mul_n)

lemma dbl_nadd: "dbl (nadd a b) = nadd a b"
  by (simp add: nadd_def dbl_add_n)

lemma dbl_nsub: "dbl (nsub a b) = nsub a b"
  by (simp add: nsub_def dbl_add_n)

lemma dbl_nmul: "dbl (nmul a b) = nmul a b"
  by (simp add: nmul_def dbl_mul_n)

lemma add_n_zero_right: "dbl a = a \<Longrightarrow> add_n a (Fin 0) = a"
  by (cases a) simp_all

lemma add_n_zero_left: "dbl a = a \<Longrightarrow> add_n (Fin 0) a = a"
  by (cases a) simp_all

lemma nadd_zero_right: "dbl a = a \<Longrightarrow> nadd a (Fin 0) = a"
  by (simp add: nadd_def rnd_0 add_n_zero_right)

lemma nadd_zero_left: "dbl a = a \<Longrightarrow> nadd (Fin 0) a = a"
  by (simp add: nadd_def rnd_0 add_n_zero_left)

lemma mul_n_commute: "mul_n a b = mul_n b a"
  by (cases a; cases b) (simp_all add: mult.commute)

lemma nmul_commute: "nmul a b = nmul b a"
  by (simp add: nmul_def mul_n_commute)

lemma dbl_or_zero: "dbl (ToNumber (jor v zero)) = dbl (read0 v)"
proof (cases v)
  case (Number n)
  show ?thesis
  proof (cases n)
    case (Fin q)
    show ?thesis
    proof (cases "rnd q")
      case (Fin r)
      with Number \<open>n = Fin q\<close> show ?thesis
        by (simp add: jor_def truthy_def zero_def rnd_0)
    qed (simp_all add: Number \<open>n = Fin q\<close> jor_def truthy_def zero_def rnd_not_NaN)
  qed (simp_all add: Number jor_def truthy_def zero_def rnd_0)
qed (simp_all add: jor_def truthy_def zero_def)

lemma nadd_or_zero: "nadd a (ToNumber (jor v zero)) = nadd a (read0 v)"
  by (simp add: nadd_def dbl_or_zero)

lemma stat_read0: "stat v c = nmul c (read0 v)"
  by (simp add: stat_def nmul_def dbl_or_zero mul_n_commute)

lemma rnd_minus_one: "rnd (- 1) = Fin (- 1)" and rnd_one: "rnd 1 = Fin 1"
  using rnd_of_int [of "- 1"] rnd_of_int [of 1] by simp_all

lemma nneg_mul_n_one: "dbl x = x \<Longrightarrow> mul_n (Fin (- 1)) x = nneg (mul_n (Fin 1) x)"
proof (cases x)
  case (Fin r)
  assume "dbl x = x"
  with Fin have "rnd r = Fin r" by simp
  with Fin show ?thesis by (simp add: rnd_minus)
qed (simp_all add: scale_inf_def)

lemma nadd_minus_one: "nadd a (nmul (Fin (- 1)) x) = nsub a (nmul (Fin 1) x)"
  by (simp add: nadd_def nsub_def nmul_def dbl_mul_n rnd_minus_one rnd_one nneg_mul_n_one dbl_dbl
      dbl_nneg_mul_n)

section \<open>Properties of the fantasy-point computation\<close>

lemma ppr_of_isPPR:
  "(if (case arg of None \<Rightarrow> True | Some b \<Rightarrow> b) then Fin 1 else Fin (1 / 2)) = Fin (ppr_of arg)"
  by (simp add: ppr_of_def split: option.splits bool.splits)

lemma points_formula:
  "calculateFantasyPoints p arg =
     ndiv (Math_round (nmul (formula_double p (ppr_of arg)) (Fin 10))) (Fin 10)"
  by (simp add: calculateFantasyPoints_def formula_double_def ppr_of_isPPR stat_read0
      nadd_minus_one nadd_zero_left dbl_nmul Let_def)

lemmas eval_ops =
  nadd_def nsub_def nmul_def ndiv_def Math_round_def truthy_def jor_def zero_def ngt0_def gt0_def
  scale_inf_def eval_rnd

lemmas eval_points = calculateFantasyPoints_def stat_def no_stats_def eval_ops

lemma points_unfold:
  "calculateFantasyPoints p arg =
     ndiv (Math_round (nmul
       (nadd (nadd (nadd (nadd (nadd (nadd (nadd (nadd (nadd (Fin 0)
          (stat (passing_yards p) (Fin (4 / 100))))
          (stat (passing_tds p) (Fin 4)))
          (stat (interceptions p) (Fin (- 1))))
          (stat (rushing_yards p) (Fin (1 / 10))))
          (stat (rushing_tds p) (Fin 6)))
          (stat (receiving_yards p) (Fin (1 / 10))))
          (stat (receiving_tds p) (Fin 6)))
          (stat (receptions p) (Fin (ppr_of arg))))
          (stat (fumbles_lost p) (Fin (- 1))))
       (Fin 10))) (Fin 10)"
  by (simp add: calculateFantasyPoints_def Let_def ppr_of_isPPR)

lemmas eval_calc = points_unfold ppr_of_def stat_def no_stats_def eval_ops

lemma rnd_nat: "n \<le> 2 ^ 53 \<Longrightarrow> rnd (of_nat n) = Fin (of_nat n)"
  using rnd_of_int [of "int n"] by simp

lemma rnd_nat_half: "n \<le> 2 ^ 53 \<Longrightarrow> rnd (of_nat n / 2) = Fin (of_nat n / 2)"
  using rnd_half_int [of "int n"] by simp

lemma rnd_small:
  "rnd 10 = Fin 10" "rnd (1 / 2) = Fin (1 / 2)" "rnd 4 = Fin 4" "rnd 6 = Fin 6"
  by (simp_all add: eval_rnd)

lemma nmul_const_zero:
  "nmul (Fin (1 / 25)) (Fin 0) = Fin 0" "nmul (Fin 4) (Fin 0) = Fin 0"
  "nmul (Fin 1) (Fin 0) = Fin 0" "nmul (Fin (1 / 10)) (Fin 0) = Fin 0"
  "nmul (Fin 6) (Fin 0) = Fin 0"
  by (simp_all add: eval_ops)

lemma nadd_zero_zero: "nadd (Fin 0) (Fin 0) = Fin 0" "nsub (Fin 0) (Fin 0) = Fin 0"
  by (simp_all add: nadd_def nsub_def rnd_0)

lemma nsub_zero_right: "dbl a = a \<Longrightarrow> nsub a (Fin 0) = a"
  by (simp add: nsub_def rnd_0 add_n_zero_right)

lemma formula_only_receptions:
  "formula_double (only_receptions r) m = nmul (Fin m) (Fin r)"
  by (simp add: formula_double_def only_receptions_def no_stats_def zero_def nmul_const_zero
      nadd_zero_zero nadd_zero_left nsub_zero_right dbl_nmul dbl_nadd)

lemma Math_round_int: "\<bar>k\<bar> \<le> 2 ^ 53 \<Longrightarrow> Math_round (Fin (of_int k)) = Fin (of_int k)"
proof -
  assume "\<bar>k\<bar> \<le> 2 ^ 53"
  then have "rnd (of_int k) = Fin (of_int k)" by (rule rnd_of_int)
  moreover have "\<lfloor>(of_int k :: rat) + 1 / 2\<rfloor> = k"
    by (rule floor_unique) simp_all
  ultimately show ?thesis by (simp add: Math_round_def)
qed

lemma receptions_full:
  assumes "10 * n \<le> 2 ^ 53"
  shows "ndiv (Math_round (nmul (nmul (Fin 1) (Fin (of_nat n))) (Fin 10))) (Fin 10) = Fin (of_nat n)"
proof -
  from assms have n: "n \<le> 2 ^ 53" by simp
  have a: "nmul (Fin 1) (Fin (of_nat n)) = Fin (of_nat n)"
    by (simp add: nmul_def rnd_one rnd_nat [OF n])
  have "rnd (of_nat (10 * n)) = Fin (of_nat (10 * n))" by (rule rnd_nat [OF assms])
  then have b: "nmul (Fin (of_nat n)) (Fin 10) = Fin (of_int (int (10 * n)))"
    by (simp add: nmul_def rnd_small rnd_nat [OF n] mult.commute)
  have c: "Math_round (Fin (of_int (int (10 * n)))) = Fin (of_int (int (10 * n)))"
    using assms by (intro Math_round_int) simp
  have d: "ndiv (Fin (of_int (int (10 * n)))) (Fin 10) = Fin (of_nat n)"
    using rnd_nat [OF assms] by (simp add: ndiv_def rnd_small rnd_nat [OF n])
  show ?thesis by (simp only: a b c d)
qed

lemma receptions_half:
  assumes "10 * n \<le> 2 ^ 53"
  shows "ndiv (Math_round (nmul (nmul (Fin (1 / 2)) (Fin (of_nat n))) (Fin 10))) (Fin 10)
         = Fin (of_nat n / 2)"
proof -
  from assms have n: "n \<le> 2 ^ 53" and n5: "5 * n \<le> 2 ^ 53" by simp_all
  have a: "nmul (Fin (1 / 2)) (Fin (of_nat n)) = Fin (of_nat n / 2)"
    using rnd_nat_half [OF n] by (simp add: nmul_def rnd_small rnd_nat [OF n])
  have "rnd (of_nat (5 * n)) = Fin (of_nat (5 * n))" by (rule rnd_nat [OF n5])
  then have b: "nmul (Fin (of_nat n / 2)) (Fin 10) = Fin (of_int (int (5 * n)))"
    by (simp add: nmul_def rnd_small rnd_nat_half [OF n] mult.commute)
  have c: "Math_round (Fin (of_int (int (5 * n)))) = Fin (of_int (int (5 * n)))"
    using n5 by (intro Math_round_int) simp
  have d: "ndiv (Fin (of_int (int (5 * n)))) (Fin 10) = Fin (of_nat n / 2)"
    using rnd_nat [OF n5] rnd_nat_half [OF n] by (simp add: ndiv_def rnd_small)
  show ?thesis by (simp only: a b c d)
qed

lemma rne_ge_int: "of_int K \<le> y \<Longrightarrow> K \<le> rne y"
proof -
  assume "of_int K \<le> y"
  then have "K \<le> \<lfloor>y\<rfloor>" by (simp add: le_floor_iff)
  moreover have "\<lfloor>y\<rfloor> \<le> rne y" by (simp add: rne_def Let_def)
  ultimately show ?thesis by simp
qed

lemma pow2_less_imp_less:
  assumes "(2::rat) powi a < 2 powi b"
  shows "a < b"
proof (rule ccontr)
  assume "\<not> a < b"
  then have "b \<le> a" by simp
  then have "(2::rat) powi b \<le> 2 powi a" by (rule power_int_increasing) simp
  with assms show False by simp
qed

lemma round_abs_overflow:
  assumes "2 ^ 1024 \<le> a"
  shows "2 ^ 1024 \<le> round_abs a"
proof -
  from assms have apos: "0 < a" by (rule less_le_trans [rotated]) simp
  note sp = expo_spec [OF apos]
  have "(2::rat) powi 1024 \<le> a" using assms by simp
  also note sp(2)
  finally have "(1024::int) < expo a + 1" by (rule pow2_less_imp_less)
  then have e: "1024 \<le> expo a" by simp
  then have low: "2 powi expo a \<le> a" using sp(3) by simp
  let ?u = "2 powi (expo a - 52) :: rat"
  have "(of_int (2 ^ 52) :: rat) = 2 powi expo a / ?u"
    by (simp add: power_int_diff)
  also have "\<dots> \<le> a / ?u" using low by (simp add: divide_right_mono)
  finally have "2 ^ 52 \<le> rne (a / ?u)" by (rule rne_ge_int)
  then have n: "(2::rat) ^ 52 \<le> of_int (rne (a / ?u))"
    by (metis of_int_le_iff of_int_numeral of_int_power)
  have "(2::rat) ^ 1024 = 2 powi 1024" by simp
  also have "\<dots> \<le> 2 powi expo a"
    using e by (intro power_int_increasing) simp_all
  also have "\<dots> = 2 ^ 52 * ?u" by (simp add: power_int_diff)
  also have "\<dots> \<le> of_int (rne (a / ?u)) * ?u"
    using n by (rule mult_right_mono) simp
  also have "\<dots> = round_abs a" by (simp add: round_abs_def Let_def)
  finally show ?thesis .
qed

lemma rnd_overflow: "2 ^ 1024 \<le> x \<Longrightarrow> rnd x = PosInf"
proof -
  assume big: "2 ^ 1024 \<le> x"
  then have "0 < x" by (rule less_le_trans [rotated]) simp
  moreover from big have "2 ^ 1024 \<le> round_abs \<bar>x\<bar>"
    using \<open>0 < x\<close> by (intro round_abs_overflow) simp
  ultimately show ?thesis by (simp add: rnd_def Let_def)
qed

lemma rnd_huge: "rnd huge_stat = Fin huge_stat" "rnd (- huge_stat) = Fin (- huge_stat)"
proof -
  show "rnd huge_stat = Fin huge_stat"
    unfolding huge_stat_def using rnd_exact [of 1 1023] by simp
  then show "rnd (- huge_stat) = Fin (- huge_stat)" by (simp add: rnd_minus)
qed

lemma huge_pos: "0 < huge_stat"
  by (simp add: huge_stat_def)

lemma huge_terms:
  "stat (Number (Fin huge_stat)) (Fin 4) = PosInf"
  "stat (Number (Fin (- huge_stat))) (Fin 6) = NegInf"
proof -
  have four: "rnd (huge_stat * 4) = PosInf" by (rule rnd_overflow) (simp add: huge_stat_def)
  have "rnd (huge_stat * 6) = PosInf" by (rule rnd_overflow) (simp add: huge_stat_def)
  then have six: "rnd (- (huge_stat * 6)) = NegInf" by (simp add: rnd_minus)
  have nz: "huge_stat \<noteq> 0" using huge_pos by simp
  show "stat (Number (Fin huge_stat)) (Fin 4) = PosInf"
    by (simp add: stat_def jor_def truthy_def nmul_def rnd_huge rnd_small four nz)
  show "stat (Number (Fin (- huge_stat))) (Fin 6) = NegInf"
    by (simp add: stat_def jor_def truthy_def nmul_def rnd_huge rnd_small six nz)
qed

lemma bounded_dbl:
  assumes "\<exists>r. x = Fin r \<and> \<bar>r\<bar> \<le> M" "M \<le> 2 ^ 1000"
  shows "\<exists>r. dbl x = Fin r \<and> \<bar>r\<bar> \<le> 2 * M + 1"
  using assms rnd_bound by auto

lemma bounded_nadd:
  assumes x: "\<exists>r. x = Fin r \<and> \<bar>r\<bar> \<le> M" and y: "\<exists>r. y = Fin r \<and> \<bar>r\<bar> \<le> M"
    and M: "1 \<le> M" "M \<le> 2 ^ 990"
  shows "\<exists>r. nadd x y = Fin r \<and> \<bar>r\<bar> \<le> 16 * M"
proof -
  have M': "M \<le> 2 ^ 1000" using M(2) by simp
  from bounded_dbl [OF x M'] obtain a where a: "dbl x = Fin a" "\<bar>a\<bar> \<le> 2 * M + 1" by blast
  from bounded_dbl [OF y M'] obtain b where b: "dbl y = Fin b" "\<bar>b\<bar> \<le> 2 * M + 1" by blast
  have "\<bar>a + b\<bar> \<le> 6 * M" using a(2) b(2) M(1) by simp
  moreover have "6 * M \<le> 2 ^ 1000" using M(2) by simp
  ultimately obtain r where "rnd (a + b) = Fin r" "\<bar>r\<bar> \<le> 2 * (6 * M) + 1"
    using rnd_bound by blast
  then show ?thesis using a(1) b(1) M(1) by (auto simp: nadd_def)
qed

lemma bounded_nmul:
  assumes x: "\<exists>r. x = Fin r \<and> \<bar>r\<bar> \<le> M" and c: "\<bar>c\<bar> \<le> 10"
    and M: "1 \<le> M" "M \<le> 2 ^ 990"
  shows "\<exists>r. nmul x (Fin c) = Fin r \<and> \<bar>r\<bar> \<le> 128 * M"
proof -
  have M': "M \<le> 2 ^ 1000" using M(2) by simp
  from bounded_dbl [OF x M'] obtain a where a: "dbl x = Fin a" "\<bar>a\<bar> \<le> 2 * M + 1" by blast
  from rnd_bound [of c 10] c obtain b where b: "rnd c = Fin b" "\<bar>b\<bar> \<le> 21" by auto
  have "\<bar>a\<bar> \<le> 3 * M" using a(2) M(1) by simp
  then have "\<bar>a\<bar> * \<bar>b\<bar> \<le> 3 * M * 21" using b(2) by (intro mult_mono) simp_all
  then have "\<bar>a * b\<bar> \<le> 63 * M" by (simp add: abs_mult)
  moreover have "63 * M \<le> 2 ^ 1000" using M(2) by simp
  ultimately obtain r where "rnd (a * b) = Fin r" "\<bar>r\<bar> \<le> 2 * (63 * M) + 1"
    using rnd_bound by blast
  then show ?thesis using a(1) b(1) M(1) by (auto simp: nmul_def)
qed

lemma bounded_read:
  assumes "field_within B v" "0 \<le> B"
  shows "\<exists>r. ToNumber (jor v zero) = Fin r \<and> \<bar>r\<bar> \<le> B"
proof (cases v)
  case (Number n)
  with assms show ?thesis
    by (cases n) (auto simp: jor_def zero_def truthy_def)
qed (use assms in \<open>auto simp: jor_def zero_def truthy_def\<close>)

lemma bounded_stat:
  assumes "field_within B v" "\<bar>c\<bar> \<le> 10" "1 \<le> B" "B \<le> 2 ^ 990"
  shows "\<exists>r. stat v (Fin c) = Fin r \<and> \<bar>r\<bar> \<le> 128 * B"
proof -
  from assms(1,3) have "\<exists>r. ToNumber (jor v zero) = Fin r \<and> \<bar>r\<bar> \<le> B"
    by (intro bounded_read) simp_all
  from bounded_nmul [OF this assms(2,3,4)] show ?thesis by (simp add: stat_def)
qed

lemma bounded_foldl:
  assumes "\<exists>r. acc = Fin r \<and> \<bar>r\<bar> \<le> M"
    and "list_all (\<lambda>t. \<exists>r. t = Fin r \<and> \<bar>r\<bar> \<le> M) ts"
    and "1 \<le> M" "16 ^ length ts * M \<le> 2 ^ 990"
  shows "\<exists>r. foldl nadd acc ts = Fin r \<and> \<bar>r\<bar> \<le> 16 ^ length ts * M"
  using assms
proof (induction ts arbitrary: acc M)
  case Nil
  then show ?case by simp
next
  case (Cons t ts)
  from Cons.prems(2) have t: "\<exists>r. t = Fin r \<and> \<bar>r\<bar> \<le> M"
    and rest: "list_all (\<lambda>t. \<exists>r. t = Fin r \<and> \<bar>r\<bar> \<le> M) ts" by simp_all
  have "1 \<le> (16::rat) ^ length (t # ts)" by (rule one_le_power) simp
  then have "1 * M \<le> 16 ^ length (t # ts) * M"
    using Cons.prems(3) by (intro mult_right_mono) simp_all
  then have "M \<le> 16 ^ length (t # ts) * M" by simp
  from this Cons.prems(4) have M990: "M \<le> 2 ^ 990" by (rule order_trans)
  from bounded_nadd [OF Cons.prems(1) t Cons.prems(3) M990]
  have acc': "\<exists>r. nadd acc t = Fin r \<and> \<bar>r\<bar> \<le> 16 * M" .
  have rest': "list_all (\<lambda>t. \<exists>r. t = Fin r \<and> \<bar>r\<bar> \<le> 16 * M) ts"
    using rest Cons.prems(3) by (induction ts) (auto intro: order_trans)
  have one: "1 \<le> 16 * M" using Cons.prems(3) by simp
  have pow: "16 ^ length ts * (16 * M) \<le> 2 ^ 990"
    using Cons.prems(4) by (simp add: mult.assoc mult.left_commute)
  from Cons.IH [OF acc' rest' one pow] show ?case
    by (simp add: mult.assoc mult.left_commute)
qed

lemma bounded_Math_round:
  assumes x: "\<exists>r. x = Fin r \<and> \<bar>r\<bar> \<le> M" and M: "1 \<le> M" "M \<le> 2 ^ 990"
  shows "\<exists>r. Math_round x = Fin r \<and> \<bar>r\<bar> \<le> 4 * M"
proof -
  have M': "M \<le> 2 ^ 1000" using M(2) by simp
  from bounded_dbl [OF x M'] obtain a where a: "dbl x = Fin a" "\<bar>a\<bar> \<le> 2 * M + 1" by blast
  have "\<bar>of_int \<lfloor>a + 1 / 2\<rfloor> :: rat\<bar> \<le> \<bar>a\<bar> + 1" by linarith
  with a(2) M(1) have "\<bar>of_int \<lfloor>a + 1 / 2\<rfloor> :: rat\<bar> \<le> 4 * M" by simp
  with a(1) show ?thesis by (simp add: Math_round_def)
qed

lemma finite_ndiv_10:
  assumes x: "\<exists>r. x = Fin r \<and> \<bar>r\<bar> \<le> M" and M: "0 \<le> M" "M \<le> 2 ^ 990"
  shows "\<exists>r. ndiv x (Fin 10) = Fin r"
proof -
  have M': "M \<le> 2 ^ 1000" using M(2) by simp
  from bounded_dbl [OF x M'] obtain a where a: "dbl x = Fin a" "\<bar>a\<bar> \<le> 2 * M + 1" by blast
  have "\<bar>a / 10\<bar> \<le> 2 * M + 1" using a(2) by simp
  moreover have "2 * M + 1 \<le> 2 ^ 1000" using M(2) by simp
  ultimately obtain r where "rnd (a / 10) = Fin r" using rnd_bound by blast
  with a(1) show ?thesis by (simp add: ndiv_def rnd_small)
qed

lemma stat_or_zero: "stat (or_zero v) c = stat v c"
  by (cases v) (simp_all add: stat_def jor_def truthy_def zero_def rnd_0)

lemma points_foldl:
  "calculateFantasyPoints p arg =
     ndiv (Math_round (nmul
       (foldl nadd (Fin 0)
          [stat (passing_yards p) (Fin (4 / 100)), stat (passing_tds p) (Fin 4),
           stat (interceptions p) (Fin (- 1)), stat (rushing_yards p) (Fin (1 / 10)),
           stat (rushing_tds p) (Fin 6), stat (receiving_yards p) (Fin (1 / 10)),
           stat (receiving_tds p) (Fin 6), stat (receptions p) (Fin (ppr_of arg)),
           stat (fumbles_lost p) (Fin (- 1))])
       (Fin 10))) (Fin 10)"
  by (simp add: points_unfold)

lemma stat_bound_facts:
  "1 \<le> stat_bound" "stat_bound \<le> 2 ^ 990" "1 \<le> 128 * stat_bound"
  "16 ^ 9 * (128 * stat_bound) \<le> 2 ^ 990" "1 \<le> 16 ^ 9 * (128 * stat_bound)"
  "1 \<le> 128 * (16 ^ 9 * (128 * stat_bound))"
  "128 * (16 ^ 9 * (128 * stat_bound)) \<le> 2 ^ 990"
  "0 \<le> 4 * (128 * (16 ^ 9 * (128 * stat_bound)))"
  "4 * (128 * (16 ^ 9 * (128 * stat_bound))) \<le> 2 ^ 990"
  by (simp_all add: stat_bound_def)

lemma points_finite:
  assumes "stats_within stat_bound p"
  shows "\<exists>r. calculateFantasyPoints p arg = Fin r"
proof -
  let ?T = "128 * stat_bound"
  let ?ts = "[stat (passing_yards p) (Fin (4 / 100)), stat (passing_tds p) (Fin 4),
           stat (interceptions p) (Fin (- 1)), stat (rushing_yards p) (Fin (1 / 10)),
           stat (rushing_tds p) (Fin 6), stat (receiving_yards p) (Fin (1 / 10)),
           stat (receiving_tds p) (Fin 6), stat (receptions p) (Fin (ppr_of arg)),
           stat (fumbles_lost p) (Fin (- 1))]"
  have ppr: "\<bar>ppr_of arg\<bar> \<le> 10"
    by (simp add: ppr_of_def split: option.splits bool.splits)
  have tm: "\<exists>r. stat v (Fin c) = Fin r \<and> \<bar>r\<bar> \<le> ?T"
    if "field_within stat_bound v" "\<bar>c\<bar> \<le> 10" for v c
    using that stat_bound_facts(1,2) by (rule bounded_stat)
  have terms: "list_all (\<lambda>t. \<exists>r. t = Fin r \<and> \<bar>r\<bar> \<le> ?T) ?ts"
    using assms ppr by (simp add: stats_within_def tm)
  have acc: "\<exists>r. Fin 0 = Fin r \<and> \<bar>r\<bar> \<le> ?T"
    using stat_bound_facts(3) by simp
  have len: "length ?ts = 9" by simp
  have "\<exists>r. foldl nadd (Fin 0) ?ts = Fin r \<and> \<bar>r\<bar> \<le> 16 ^ length ?ts * ?T"
    using acc terms stat_bound_facts(3) stat_bound_facts(4)
    unfolding len [symmetric] by (rule bounded_foldl)
  then have sum: "\<exists>r. foldl nadd (Fin 0) ?ts = Fin r \<and> \<bar>r\<bar> \<le> 16 ^ 9 * ?T"
    unfolding len .
  have ten: "\<bar>10 :: rat\<bar> \<le> 10" by simp
  from bounded_nmul [OF sum ten stat_bound_facts(5) stat_bound_facts(4)]
  have "\<exists>r. nmul (foldl nadd (Fin 0) ?ts) (Fin 10) = Fin r \<and> \<bar>r\<bar> \<le> 128 * (16 ^ 9 * ?T)" .
  from bounded_Math_round [OF this stat_bound_facts(6) stat_bound_facts(7)]
  have "\<exists>r. Math_round (nmul (foldl nadd (Fin 0) ?ts) (Fin 10)) = Fin r
          \<and> \<bar>r\<bar> \<le> 4 * (128 * (16 ^ 9 * ?T))" .
  from finite_ndiv_10 [OF this stat_bound_facts(8) stat_bound_facts(9)]
  show ?thesis unfolding points_foldl .
qed

text \<open>
  C1, as the code has it.  For every player record, \<open>calculateFantasyPoints\<close> returns
  \<open>Math.round(s * 10) / 10\<close>, where \<open>s\<close> is the scoring formula evaluated from left to
  right in double-precision arithmetic, a missing, \<open>null\<close> or \<open>NaN\<close> field counting as
  \<open>0\<close>, with the reception multiplier \<open>1\<close> when \<open>isPPR\<close> is true or omitted and \<open>1/2\<close>
  when it is false; the record with 300 passing yards, 2 passing touchdowns and 1
  interception scores 19.
\<close>

theorem calculateFantasyPoints_rounded_formula:
  "calculateFantasyPoints p arg =
     ndiv (Math_round (nmul (formula_double p (ppr_of arg)) (Fin 10))) (Fin 10)
   \<and> calculateFantasyPoints round_trip_player (Some True) = Fin 19"
proof
  show "calculateFantasyPoints p arg =
     ndiv (Math_round (nmul (formula_double p (ppr_of arg)) (Fin 10))) (Fin 10)"
    by (rule points_formula)
  show "calculateFantasyPoints round_trip_player (Some True) = Fin 19"
    by (simp add: round_trip_player_def eval_calc)
qed

theorem calculateFantasyPoints_rounded_formula_witness:
  "formula_double (no_stats\<lparr>rushing_yards := Number (Fin (- (3 / 2)))\<rparr>) 1
     = Fin (- (5404319552844596 / 2 ^ 55))
   \<and> calculateFantasyPoints (no_stats\<lparr>rushing_yards := Number (Fin (- (3 / 2)))\<rparr>) None
     = rnd (- (2 / 10))"
proof -
  let ?p = "no_stats\<lparr>rushing_yards := Number (Fin (- (3 / 2)))\<rparr>"
  have f: "formula_double ?p 1 = Fin (- (5404319552844596 / 2 ^ 55))"
    by (simp add: formula_double_def no_stats_def eval_ops)
  from calculateFantasyPoints_rounded_formula [of ?p None]
  have "calculateFantasyPoints ?p None
          = ndiv (Math_round (nmul (formula_double ?p (ppr_of None)) (Fin 10))) (Fin 10)"
    by blast
  then have "calculateFantasyPoints ?p None = rnd (- (2 / 10))"
    by (simp add: ppr_of_def f eval_ops)
  with f show ?thesis by blast
qed

text \<open>
  C1 as stated fails: with one passing yard and nothing else the formula gives
  \<open>0.04\<close>, for every reception multiplier, while the code returns \<open>0\<close>.
\<close>

theorem calculateFantasyPoints_not_exact:
  "calculateFantasyPoints (no_stats\<lparr>passing_yards := Number (Fin 1)\<rparr>) (Some True) = Fin 0
   \<and> calculateFantasyPoints (no_stats\<lparr>passing_yards := Number (Fin 1)\<rparr>) (Some False) = Fin 0
   \<and> calculateFantasyPoints (no_stats\<lparr>passing_yards := Number (Fin 1)\<rparr>) None = Fin 0
   \<and> spec_fantasy_points (no_stats\<lparr>passing_yards := Number (Fin 1)\<rparr>) 1 = 1 / 25
   \<and> spec_fantasy_points (no_stats\<lparr>passing_yards := Number (Fin 1)\<rparr>) (1 / 2) = 1 / 25
   \<and> spec_fantasy_points (no_stats\<lparr>passing_yards := Number (Fin 1)\<rparr>) 0 = 1 / 25"
  by (simp add: eval_calc spec_fantasy_points_def)

text \<open>
  C6, as the code has it.  The reception multiplier is \<open>1\<close> when \<open>isPPR\<close> is true or
  omitted and \<open>1/2\<close> when it is false, and there is no other setting: a record whose only
  nonzero statistic is \<open>n\<close> receptions, for a whole number \<open>n\<close> with \<open>10 n \<le> 2^53\<close>,
  scores \<open>n\<close> under the first and \<open>n/2\<close> under the second.
\<close>

theorem calculateFantasyPoints_receptions_only:
  assumes "10 * n \<le> 2 ^ 53"
  shows "calculateFantasyPoints (only_receptions (of_nat n)) (Some True) = Fin (of_nat n)
   \<and> calculateFantasyPoints (only_receptions (of_nat n)) None = Fin (of_nat n)
   \<and> calculateFantasyPoints (only_receptions (of_nat n)) (Some False) = Fin (of_nat n / 2)"
  using receptions_full [OF assms] receptions_half [OF assms]
  by (simp add: points_formula formula_only_receptions ppr_of_def)

theorem calculateFantasyPoints_receptions_only_witness:
  "10 * (3::nat) \<le> 2 ^ 53
   \<and> calculateFantasyPoints (only_receptions 3) (Some True) = Fin 3
   \<and> calculateFantasyPoints (only_receptions 3) None = Fin 3
   \<and> calculateFantasyPoints (only_receptions 3) (Some False) = Fin (3 / 2)"
proof -
  have h: "10 * (3::nat) \<le> 2 ^ 53" by simp
  from calculateFantasyPoints_receptions_only [OF h] h show ?thesis by simp
qed

text \<open>
  C6 as stated fails: under each of the settings the function accepts, a record whose
  only nonzero statistic is two receptions scores 2 or 1, never 0.
\<close>

theorem calculateFantasyPoints_no_standard_scoring:
  "calculateFantasyPoints (only_receptions 2) (Some True) = Fin 2
   \<and> calculateFantasyPoints (only_receptions 2) None = Fin 2
   \<and> calculateFantasyPoints (only_receptions 2) (Some False) = Fin 1"
  by (simp add: only_receptions_def eval_calc)

text \<open>
  The bound on \<open>n\<close> cannot be dropped: beyond it the product \<open>points * 10\<close> is no
  longer a whole number of doubles, and 2230885642603461 receptions score a quarter of a
  point less.
\<close>

lemma receptions_beyond_bound:
  "calculateFantasyPoints (only_receptions 2230885642603461) (Some True)
     = Fin (2230885642603461 - 1 / 4)"
  by (simp add: only_receptions_def eval_calc)

text \<open>
  C8, as the code has it.  A record with missing or \<open>null\<close> fields scores the same as
  the record with those fields replaced by \<open>0\<close>; and when every field is missing,
  \<open>null\<close>, \<open>NaN\<close> or a finite number of magnitude at most \<open>2^900\<close>, the score is a finite
  number, so neither \<open>NaN\<close> nor an infinity.
\<close>

theorem calculateFantasyPoints_missing_as_zero:
  "calculateFantasyPoints p arg = calculateFantasyPoints (zero_missing p) arg
   \<and> (stats_within stat_bound p \<longrightarrow> (\<exists>r. calculateFantasyPoints p arg = Fin r))"
proof -
  have "calculateFantasyPoints (zero_missing p) arg = calculateFantasyPoints p arg"
    by (simp add: points_unfold zero_missing_def stat_or_zero)
  moreover have "stats_within stat_bound p \<longrightarrow> (\<exists>r. calculateFantasyPoints p arg = Fin r)"
    using points_finite by blast
  ultimately show ?thesis by simp
qed

theorem calculateFantasyPoints_missing_as_zero_witness:
  "stats_within stat_bound (no_stats\<lparr>passing_yards := Undefined, passing_tds := Null,
       receptions := Number (Fin 7), receiving_yards := Number (Fin 81)\<rparr>)
   \<and> calculateFantasyPoints (no_stats\<lparr>passing_yards := Undefined, passing_tds := Null,
         receptions := Number (Fin 7), receiving_yards := Number (Fin 81)\<rparr>) None
       = calculateFantasyPoints (no_stats\<lparr>receptions := Number (Fin 7), receiving_yards := Number (Fin 81)\<rparr>) None
   \<and> calculateFantasyPoints (no_stats\<lparr>receptions := Number (Fin 7), receiving_yards := Number (Fin 81)\<rparr>) None
       = rnd (151 / 10)"
proof -
  let ?p = "no_stats\<lparr>passing_yards := Undefined, passing_tds := Null, receptions := Number (Fin 7),
       receiving_yards := Number (Fin 81)\<rparr>"
  have sw: "stats_within stat_bound ?p"
    by (simp add: stats_within_def no_stats_def zero_def stat_bound_def)
  have zm: "zero_missing ?p = no_stats\<lparr>receptions := Number (Fin 7), receiving_yards := Number (Fin 81)\<rparr>"
    by (simp add: zero_missing_def no_stats_def zero_def)
  have v: "calculateFantasyPoints (no_stats\<lparr>receptions := Number (Fin 7), receiving_yards := Number (Fin 81)\<rparr>) None
       = rnd (151 / 10)"
    by (simp add: eval_calc)
  from calculateFantasyPoints_missing_as_zero [of ?p None]
  have "calculateFantasyPoints ?p None = calculateFantasyPoints (zero_missing ?p) None"
    by blast
  with sw zm v show ?thesis
    by (simp only: simp_thms)
qed

text \<open>
  C8 as stated fails: a record with a missing field, infinitely many passing touchdowns
  and infinitely many interceptions scores \<open>NaN\<close>, and so does a record of finite
  numbers with a missing field, \<open>2^1023\<close> passing touchdowns and \<open>-2^1023\<close> rushing
  touchdowns, whose products overflow to the two infinities.
\<close>

theorem calculateFantasyPoints_can_be_NaN:
  "calculateFantasyPoints
     (no_stats\<lparr>passing_yards := Null, passing_tds := Number PosInf, interceptions := Number PosInf\<rparr>)
     None = NaN
   \<and> calculateFantasyPoints
     (no_stats\<lparr>passing_yards := Undefined, passing_tds := Number (Fin huge_stat),
        rushing_tds := Number (Fin (- huge_stat))\<rparr>)
     None = NaN"
proof
  show "calculateFantasyPoints
     (no_stats\<lparr>passing_yards := Null, passing_tds := Number PosInf, interceptions := Number PosInf\<rparr>)
     None = NaN"
    by (simp add: eval_calc)
  show "calculateFantasyPoints
     (no_stats\<lparr>passing_yards := Undefined, passing_tds := Number (Fin huge_stat),
        rushing_tds := Number (Fin (- huge_stat))\<rparr>)
     None = NaN"
    by (simp add: points_unfold no_stats_def huge_terms ppr_of_def) (simp add: stat_def eval_ops)
qed

section \<open>Properties of the response cache\<close>

lemma timestamps_get:
  "timestamps (snd (ApiCache_get ttl key now c)) k = None \<or>
   timestamps (snd (ApiCache_get ttl key now c)) k = timestamps c k"
  by (simp add: ApiCache_get_def cache_delete_def split: option.splits)

lemma timestamps_apply_other:
  "\<not> sets_key k op \<Longrightarrow>
   timestamps (apply_cache_op ttl c op) k = None \<or>
   timestamps (apply_cache_op ttl c op) k = timestamps c k"
proof (cases op)
  case (OpGet key now)
  then show ?thesis using timestamps_get [of ttl key now c k] by simp
next
  case (OpSet key v now)
  assume "\<not> sets_key k op"
  with OpSet show ?thesis by (simp add: ApiCache_set_def)
next
  case OpClear
  then show ?thesis by (simp add: ApiCache_clear_def)
qed

lemma timestamps_run_other:
  "list_all (\<lambda>op. \<not> sets_key k op) ops \<Longrightarrow>
   timestamps (run_cache ttl ops c) k = None \<or>
   timestamps (run_cache ttl ops c) k = timestamps c k"
proof (induction ops arbitrary: c)
  case Nil
  then show ?case by (simp add: run_cache_def)
next
  case (Cons op ops)
  then have nk: "\<not> sets_key k op" and rest: "list_all (\<lambda>op. \<not> sets_key k op) ops"
    by simp_all
  have run: "run_cache ttl (op # ops) c = run_cache ttl ops (apply_cache_op ttl c op)"
    by (simp add: run_cache_def)
  from Cons.IH [OF rest, of "apply_cache_op ttl c op"] timestamps_apply_other [OF nk, of ttl c]
  show ?case unfolding run by auto
qed

lemma get_absent: "timestamps c key = None \<Longrightarrow> ApiCache_get ttl key now c = (None, cache_delete key c)"
  by (simp add: ApiCache_get_def)

lemma get_expired:
  "timestamps c key = Some t \<Longrightarrow> ttl < now - t \<Longrightarrow>
   ApiCache_get ttl key now c = (None, cache_delete key c)"
  by (simp add: ApiCache_get_def)

lemma get_cleared: "ApiCache_get ttl key now (ApiCache_clear c) = (None, ApiCache_clear c)"
  by (simp add: ApiCache_get_def ApiCache_clear_def cache_delete_def)

lemma apiRequest_fst:
  "fst (apiRequest ttl http url params useCache now now' c) =
     (case served ttl url params useCache now c of
        Some d \<Rightarrow> Inr d
      | None \<Rightarrow>
          (case http url params of
             Fulfilled st body \<Rightarrow> Inr body
           | Rejected error \<Rightarrow> Inl (response_rejected error)))"
  by (simp add: apiRequest_def served_def Let_def
      split: http_outcome.splits option.splits prod.splits)

lemma served_cleared: "served ttl url params useCache now (ApiCache_clear c) = None"
  by (simp add: served_def get_cleared)

lemma refreshData_fulfilled: "refreshData (Fulfilled st body) c = (Inr body, ApiCache_clear c)"
  by (simp add: refreshData_def)

lemmas eval_key =
  getCacheKey_def Object_keys_def own_keys_def is_array_index_def is_digit_def digits_value_def
  obj_get_def URLSearchParams_toString_def urlencode_def urlencode_byte_def hex_digit_def
  less_eq_char_def less_char_def

lemma season_query_key: "getCacheKey ''/players/weekly-stats'' season_query = ''/players/weekly-stats?page=1&season=2025''"
  by (simp add: season_query_def eval_key)

lemma get_removes:
  "ApiCache_get ttl key now c = (None, cache_delete key c) \<Longrightarrow>
   fst (ApiCache_get ttl key now c) = None
   \<and> cache (snd (ApiCache_get ttl key now c)) key = None
   \<and> timestamps (snd (ApiCache_get ttl key now c)) key = None"
  by (simp add: cache_delete_def)

text \<open>
  C5.  In any history of cache operations, a \<open>get\<close> for a key made more than the TTL
  after the last \<open>set\<close> of that key returns \<open>null\<close> and, in that very call, removes the
  key from both maps; and a \<open>get\<close> for a key that was never set returns \<open>null\<close>.
  Nothing but \<open>get\<close>, \<open>set\<close> and \<open>clear\<close> ever touches the two maps.
\<close>

theorem ApiCache_get_expired_or_absent:
  fixes c :: "'v ApiCache"
  assumes later: "list_all (\<lambda>op. \<not> sets_key key op) later"
    and never: "list_all (\<lambda>op. \<not> sets_key key op) ops"
    and expired: "ttl < now - t0"
  shows "fst (ApiCache_get ttl key now (run_cache ttl (earlier @ [OpSet key v t0] @ later) c)) = None
       \<and> cache (snd (ApiCache_get ttl key now
            (run_cache ttl (earlier @ [OpSet key v t0] @ later) c))) key = None
       \<and> timestamps (snd (ApiCache_get ttl key now
            (run_cache ttl (earlier @ [OpSet key v t0] @ later) c))) key = None
       \<and> fst (ApiCache_get ttl key now (run_cache ttl ops (ApiCache_new :: 'v ApiCache))) = None
       \<and> cache (snd (ApiCache_get ttl key now
            (run_cache ttl ops (ApiCache_new :: 'v ApiCache)))) key = None
       \<and> timestamps (snd (ApiCache_get ttl key now
            (run_cache ttl ops (ApiCache_new :: 'v ApiCache)))) key = None"
proof -
  let ?c1 = "run_cache ttl (earlier @ [OpSet key v t0]) c"
  let ?c2 = "run_cache ttl (earlier @ [OpSet key v t0] @ later) c"
  let ?c3 = "run_cache ttl ops (ApiCache_new :: 'v ApiCache)"
  have "timestamps ?c1 key = Some t0"
    by (simp add: run_cache_def ApiCache_set_def)
  with timestamps_run_other [OF later, of ttl ?c1]
  have "timestamps (run_cache ttl later ?c1) key = None \<or>
        timestamps (run_cache ttl later ?c1) key = Some t0" by simp
  moreover have "?c2 = run_cache ttl later ?c1"
    by (simp add: run_cache_def)
  ultimately have "ApiCache_get ttl key now ?c2 = (None, cache_delete key ?c2)"
    using get_absent get_expired [OF _ expired] by metis
  then have first: "fst (ApiCache_get ttl key now ?c2) = None
       \<and> cache (snd (ApiCache_get ttl key now ?c2)) key = None
       \<and> timestamps (snd (ApiCache_get ttl key now ?c2)) key = None"
    by (rule get_removes)
  have "timestamps ?c3 key = None"
    using timestamps_run_other [OF never, of ttl "ApiCache_new :: 'v ApiCache"]
    by (simp add: ApiCache_new_def)
  then have "ApiCache_get ttl key now ?c3 = (None, cache_delete key ?c3)"
    by (rule get_absent)
  then have "fst (ApiCache_get ttl key now ?c3) = None
       \<and> cache (snd (ApiCache_get ttl key now ?c3)) key = None
       \<and> timestamps (snd (ApiCache_get ttl key now ?c3)) key = None"
    by (rule get_removes)
  with first show ?thesis by blast
qed

theorem ApiCache_get_expired_or_absent_witness:
  "list_all (\<lambda>op. \<not> sets_key ''k'' op) [OpGet ''k'' 100500, OpSet ''b'' (JNum 5) 100600]
   \<and> list_all (\<lambda>op. \<not> sets_key ''k'' op) [OpSet ''b'' (JNum 5) 100600, OpClear, OpGet ''k'' 100700]
   \<and> CACHE_TTL None < 400001 - 100000
   \<and> cache (run_cache (CACHE_TTL None)
          ([OpSet ''a'' (JNum 1) 50, OpGet ''k'' 60] @ [OpSet ''k'' (JNum 2) 100000]
            @ [OpGet ''k'' 100500, OpSet ''b'' (JNum 5) 100600]) ApiCache_new) ''k'' = Some (JNum 2)
   \<and> fst (ApiCache_get (CACHE_TTL None) ''k'' 400001
        (run_cache (CACHE_TTL None)
          ([OpSet ''a'' (JNum 1) 50, OpGet ''k'' 60] @ [OpSet ''k'' (JNum 2) 100000]
            @ [OpGet ''k'' 100500, OpSet ''b'' (JNum 5) 100600]) ApiCache_new)) = None
   \<and> cache (snd (ApiCache_get (CACHE_TTL None) ''k'' 400001
        (run_cache (CACHE_TTL None)
          ([OpSet ''a'' (JNum 1) 50, OpGet ''k'' 60] @ [OpSet ''k'' (JNum 2) 100000]
            @ [OpGet ''k'' 100500, OpSet ''b'' (JNum 5) 100600]) ApiCache_new))) ''k'' = None
   \<and> timestamps (snd (ApiCache_get (CACHE_TTL None) ''k'' 400001
        (run_cache (CACHE_TTL None)
          ([OpSet ''a'' (JNum 1) 50, OpGet ''k'' 60] @ [OpSet ''k'' (JNum 2) 100000]
            @ [OpGet ''k'' 100500, OpSet ''b'' (JNum 5) 100600]) ApiCache_new))) ''k'' = None
   \<and> fst (ApiCache_get (CACHE_TTL None) ''k'' 400001
        (run_cache (CACHE_TTL None) [OpSet ''b'' (JNum 5) 100600, OpClear, OpGet ''k'' 100700]
          ApiCache_new)) = None
   \<and> fst (ApiCache_get (CACHE_TTL None) ''k'' 400000
        (run_cache (CACHE_TTL None)
          ([OpSet ''a'' (JNum 1) 50, OpGet ''k'' 60] @ [OpSet ''k'' (JNum 2) 100000]
            @ [OpGet ''k'' 100500, OpSet ''b'' (JNum 5) 100600]) ApiCache_new)) = Some (JNum 2)"
proof -
  have h1: "list_all (\<lambda>op. \<not> sets_key ''k'' op) [OpGet ''k'' 100500, OpSet ''b'' (JNum 5) 100600]"
    by simp
  have h2: "list_all (\<lambda>op. \<not> sets_key ''k'' op) [OpSet ''b'' (JNum 5) 100600, OpClear, OpGet ''k'' 100700]"
    by simp
  have h3: "CACHE_TTL None < 400001 - 100000"
    by (simp add: CACHE_TTL_def)
  have stored: "cache (run_cache (CACHE_TTL None)
          ([OpSet ''a'' (JNum 1) 50, OpGet ''k'' 60] @ [OpSet ''k'' (JNum 2) 100000]
            @ [OpGet ''k'' 100500, OpSet ''b'' (JNum 5) 100600]) ApiCache_new) ''k'' = Some (JNum 2)"
    by (simp add: CACHE_TTL_def run_cache_def ApiCache_get_def ApiCache_set_def ApiCache_new_def
        cache_delete_def)
  have live: "fst (ApiCache_get (CACHE_TTL None) ''k'' 400000
        (run_cache (CACHE_TTL None)
          ([OpSet ''a'' (JNum 1) 50, OpGet ''k'' 60] @ [OpSet ''k'' (JNum 2) 100000]
            @ [OpGet ''k'' 100500, OpSet ''b'' (JNum 5) 100600]) ApiCache_new)) = Some (JNum 2)"
    by (simp add: CACHE_TTL_def run_cache_def ApiCache_get_def ApiCache_set_def ApiCache_new_def
        cache_delete_def)
  from ApiCache_get_expired_or_absent [OF h1 h2 h3,
      of "[OpSet ''a'' (JNum 1) 50, OpGet ''k'' 60]" "JNum 2" ApiCache_new]
    h1 h2 h3 stored live
  show ?thesis by blast
qed

text \<open>
  C4.  A \<open>refreshData\<close> call whose \<open>POST\<close> resolves returns the response body and leaves
  both maps of the cache empty, so that every later \<open>get\<close> misses and the next
  \<open>apiRequest\<close> for any query returns what the server answers then.
\<close>

theorem refreshData_clears_cache:
  "refreshData (Fulfilled st body) c = (Inr body, ApiCache_clear c)
   \<and> cache (snd (refreshData (Fulfilled st body) c)) = Map.empty
   \<and> timestamps (snd (refreshData (Fulfilled st body) c)) = Map.empty
   \<and> fst (ApiCache_get ttl key now (snd (refreshData (Fulfilled st body) c))) = None
   \<and> fst (apiRequest ttl http url params useCache now now' (snd (refreshData (Fulfilled st body) c)))
       = (case http url params of
            Rejected error \<Rightarrow> Inl (response_rejected error)
          | Fulfilled st' data \<Rightarrow> Inr data)"
proof -
  have "cache (ApiCache_clear c) = Map.empty" "timestamps (ApiCache_clear c) = Map.empty"
    by (simp_all add: ApiCache_clear_def)
  then show ?thesis
    by (simp add: refreshData_fulfilled get_cleared apiRequest_fst served_cleared
        split: http_outcome.splits)
qed

theorem refreshData_clears_cache_witness:
  "fst (apiRequest 300000 server_empty ''/players/weekly-stats'' season_query True 2000 2001
          (ApiCache_set ''/players/weekly-stats?page=1&season=2025'' (JArr [JNum 1]) 1000 ApiCache_new))
     = Inr (JArr [JNum 1])
   \<and> fst (apiRequest 300000 server_empty ''/players/weekly-stats'' season_query True 2000 2001
          (snd (refreshData (Fulfilled 200 JNull)
             (ApiCache_set ''/players/weekly-stats?page=1&season=2025'' (JArr [JNum 1]) 1000 ApiCache_new))))
     = Inr (JArr [])"
proof -
  have "fst (apiRequest 300000 server_empty ''/players/weekly-stats'' season_query True 2000 2001
          (ApiCache_set ''/players/weekly-stats?page=1&season=2025'' (JArr [JNum 1]) 1000 ApiCache_new))
     = Inr (JArr [JNum 1])"
    by (simp add: apiRequest_fst served_def season_query_key ApiCache_get_def ApiCache_set_def
        ApiCache_new_def)
  moreover from refreshData_clears_cache [of 200 JNull
      "ApiCache_set ''/players/weekly-stats?page=1&season=2025'' (JArr [JNum 1]) 1000 ApiCache_new"
      300000 "''k''" 2000 server_empty "''/players/weekly-stats''" season_query True 2001]
  have "fst (apiRequest 300000 server_empty ''/players/weekly-stats'' season_query True 2000 2001
          (snd (refreshData (Fulfilled 200 JNull)
             (ApiCache_set ''/players/weekly-stats?page=1&season=2025'' (JArr [JNum 1]) 1000 ApiCache_new))))
     = (case server_empty ''/players/weekly-stats'' season_query of
          Rejected error \<Rightarrow> Inl (response_rejected error)
        | Fulfilled st' data \<Rightarrow> Inr data)"
    by blast
  then have "fst (apiRequest 300000 server_empty ''/players/weekly-stats'' season_query True 2000 2001
          (snd (refreshData (Fulfilled 200 JNull)
             (ApiCache_set ''/players/weekly-stats?page=1&season=2025'' (JArr [JNum 1]) 1000 ApiCache_new))))
     = Inr (JArr [])"
    by (simp add: server_empty_def)
  ultimately show ?thesis by blast
qed

text \<open>
  C7, as the code has it.  \<open>apiRequest\<close> returns normally, with the cached value or the
  response body (which may hold no rows), when a live truthy cache entry is served or the
  \<open>GET\<close> is fulfilled; when the \<open>GET\<close> is rejected and no entry is served, the error of
  the response interceptor is thrown to the caller, and for a 404 response that error is
  \<open>Data not found\<close>.  A failed refresh leaves the cache as it was, so a later query
  behaves as if the refresh had not been attempted.
\<close>

theorem apiRequest_result:
  "fst (apiRequest ttl http url params useCache now now' c) =
     (case served ttl url params useCache now c of
        Some d \<Rightarrow> Inr d
      | None \<Rightarrow>
          (case http url params of
             Fulfilled st body \<Rightarrow> Inr body
           | Rejected error \<Rightarrow> Inl (response_rejected error)))
   \<and> response_rejected (error\<lparr>status := Some 404\<rparr>) = Error ''Data not found''
   \<and> apiRequest ttl http url params useCache now now' (snd (refreshData (Rejected error) c))
       = apiRequest ttl http url params useCache now now' c"
  by (simp add: apiRequest_fst response_rejected_def refreshData_def)

theorem apiRequest_result_witness:
  "fst (apiRequest 300000 server_empty ''/players/weekly-stats'' season_query True 1000 1005 ApiCache_new)
     = Inr (JArr [])"
  using apiRequest_result [of 300000 server_empty "''/players/weekly-stats''" season_query True 1000 1005
      ApiCache_new not_found]
  by (simp add: served_def ApiCache_get_def ApiCache_new_def server_empty_def)

text \<open>
  C7 as stated fails: when the server answers a query with 404 because the data is
  missing, \<open>apiRequest\<close> throws \<open>Data not found\<close> to its caller.
\<close>

theorem apiRequest_throws_on_missing_data:
  "fst (apiRequest 300000 server_404 ''/players/weekly-stats'' season_query True 1000 1005 ApiCache_new)
     = Inl (Error ''Data not found'')"
  by (simp add: apiRequest_def ApiCache_get_def ApiCache_new_def response_rejected_def
      server_404_def not_found_def)

section \<open>Properties of the cache key\<close>

lemma set_own_keys: "set (own_keys ks) = set ks"
  by (auto simp: own_keys_def)

lemma distinct_own_keys: "distinct ks \<Longrightarrow> distinct (own_keys ks)"
  by (auto simp: own_keys_def)

lemma sorted_keys_eq:
  assumes "distinct (map fst p)" "distinct (map fst q)" "set p = set q"
  shows "sort (Object_keys p) = sort (Object_keys q)"
proof (rule sorted_distinct_set_unique)
  show "sorted (sort (Object_keys p))" "sorted (sort (Object_keys q))" by simp_all
  show "distinct (sort (Object_keys p))" "distinct (sort (Object_keys q))"
    using assms by (simp_all add: Object_keys_def distinct_own_keys)
  show "set (sort (Object_keys p)) = set (sort (Object_keys q))"
    using assms(3) by (simp add: Object_keys_def set_own_keys)
qed

lemma obj_get_eq:
  assumes "distinct (map fst p)" "distinct (map fst q)" "set p = set q"
  shows "obj_get p = obj_get q"
  using assms by (auto simp: obj_get_def fun_eq_iff map_of_inject_set [symmetric])

text \<open>
  C9.  Two parameter objects with the same bindings, whatever the order in which their
  properties were inserted, give the same cache key for the same URL.
\<close>

theorem getCacheKey_order_independent:
  assumes "distinct (map fst p)" "distinct (map fst q)" "set p = set q"
  shows "getCacheKey url p = getCacheKey url q"
  by (simp add: getCacheKey_def sorted_keys_eq [OF assms] obj_get_eq [OF assms])

theorem getCacheKey_order_independent_witness:
  "distinct (map fst [(''season'', ''2025''), (''week'', ''3''), (''10'', ''a b''), (''2'', ''x/y'')])
   \<and> distinct (map fst [(''2'', ''x/y''), (''week'', ''3''), (''10'', ''a b''), (''season'', ''2025'')])
   \<and> set [(''season'', ''2025''), (''week'', ''3''), (''10'', ''a b''), (''2'', ''x/y'')]
       = set [(''2'', ''x/y''), (''week'', ''3''), (''10'', ''a b''), (''season'', ''2025'')]
   \<and> getCacheKey ''/p'' [(''season'', ''2025''), (''week'', ''3''), (''10'', ''a b''), (''2'', ''x/y'')]
       = getCacheKey ''/p'' [(''2'', ''x/y''), (''week'', ''3''), (''10'', ''a b''), (''season'', ''2025'')]
   \<and> getCacheKey ''/p'' [(''2'', ''x/y''), (''week'', ''3''), (''10'', ''a b''), (''season'', ''2025'')]
       = ''/p?2=x%2Fy&10=a+b&season=2025&week=3''"
proof -
  let ?p = "[(''season'', ''2025''), (''week'', ''3''), (''10'', ''a b''), (''2'', ''x/y'')]"
  let ?q = "[(''2'', ''x/y''), (''week'', ''3''), (''10'', ''a b''), (''season'', ''2025'')]"
  have d1: "distinct (map fst ?p)" by simp
  have d2: "distinct (map fst ?q)" by simp
  have s: "set ?p = set ?q" by auto
  have k: "getCacheKey ''/p'' ?q = ''/p?2=x%2Fy&10=a+b&season=2025&week=3''"
    by (simp add: eval_key)
  from getCacheKey_order_independent [OF d1 d2 s, of "''/p''"] d1 d2 s k
  show ?thesis by blast
qed

section \<open>Properties of the week aggregation\<close>

lemma tally_read0: "tally acc v = nadd acc (read0 v)"
  by (simp add: tally_def nadd_or_zero)

lemma read0_chain:
  "read0 (opt_chain sect field) = (case sect of None \<Rightarrow> Fin 0 | Some x \<Rightarrow> read0 (field x))"
  by (cases sect) (simp_all add: opt_chain_def)

lemma tally_chain:
  "tally acc (opt_chain (sect wk) field) = nadd acc (week_value sect field (Some wk))"
  by (simp add: tally_read0 read0_chain week_value_def)

lemma add_cmpAtt_other:
  "total_fpts (add_cmpAtt toNum sect t) = total_fpts t"
  "total_snaps (add_cmpAtt toNum sect t) = total_snaps t"
  "total_pass_yds (add_cmpAtt toNum sect t) = total_pass_yds t"
  "total_pass_td (add_cmpAtt toNum sect t) = total_pass_td t"
  "total_int (add_cmpAtt toNum sect t) = total_int t"
  "total_rush_att (add_cmpAtt toNum sect t) = total_rush_att t"
  "total_rush_yds (add_cmpAtt toNum sect t) = total_rush_yds t"
  "total_rush_td (add_cmpAtt toNum sect t) = total_rush_td t"
  "total_tgts (add_cmpAtt toNum sect t) = total_tgts t"
  "total_rec (add_cmpAtt toNum sect t) = total_rec t"
  "total_rec_yds (add_cmpAtt toNum sect t) = total_rec_yds t"
  "total_rec_td (add_cmpAtt toNum sect t) = total_rec_td t"
  by (simp_all add: add_cmpAtt_def split: option.splits prod.splits)

lemma week_value_None: "week_value sect field None = Fin 0"
  by (simp add: week_value_def)

lemmas step_simps = add_week_def add_cmpAtt_other tally_chain week_value_None nadd_zero_right

lemma step_fpts:
  "dbl (total_fpts t) = total_fpts t \<Longrightarrow>
   total_fpts (add_week toNum t w) = nadd (total_fpts t) (week_value misc misc_fpts w)"
  by (cases w) (simp_all add: step_simps)

lemma step_snaps:
  "dbl (total_snaps t) = total_snaps t \<Longrightarrow>
   total_snaps (add_week toNum t w) = nadd (total_snaps t) (week_value misc misc_num w)"
  by (cases w) (simp_all add: step_simps)

lemma step_pass_yds:
  "dbl (total_pass_yds t) = total_pass_yds t \<Longrightarrow>
   total_pass_yds (add_week toNum t w) = nadd (total_pass_yds t) (week_value passing pass_yds w)"
  by (cases w) (simp_all add: step_simps)

lemma step_pass_td:
  "dbl (total_pass_td t) = total_pass_td t \<Longrightarrow>
   total_pass_td (add_week toNum t w) = nadd (total_pass_td t) (week_value passing pass_td w)"
  by (cases w) (simp_all add: step_simps)

lemma step_int:
  "dbl (total_int t) = total_int t \<Longrightarrow>
   total_int (add_week toNum t w) = nadd (total_int t) (week_value passing pass_int w)"
  by (cases w) (simp_all add: step_simps)

lemma step_rush_att:
  "dbl (total_rush_att t) = total_rush_att t \<Longrightarrow>
   total_rush_att (add_week toNum t w) = nadd (total_rush_att t) (week_value rushing rush_att w)"
  by (cases w) (simp_all add: step_simps)

lemma step_rush_yds:
  "dbl (total_rush_yds t) = total_rush_yds t \<Longrightarrow>
   total_rush_yds (add_week toNum t w) = nadd (total_rush_yds t) (week_value rushing rush_yds w)"
  by (cases w) (simp_all add: step_simps)

lemma step_rush_td:
  "dbl (total_rush_td t) = total_rush_td t \<Longrightarrow>
   total_rush_td (add_week toNum t w) = nadd (total_rush_td t) (week_value rushing rush_td w)"
  by (cases w) (simp_all add: step_simps)

lemma step_tgts:
  "dbl (total_tgts t) = total_tgts t \<Longrightarrow>
   total_tgts (add_week toNum t w) = nadd (total_tgts t) (week_value receiving recv_tgts w)"
  by (cases w) (simp_all add: step_simps)

lemma step_rec:
  "dbl (total_rec t) = total_rec t \<Longrightarrow>
   total_rec (add_week toNum t w) = nadd (total_rec t) (week_value receiving recv_rec w)"
  by (cases w) (simp_all add: step_simps)

lemma step_rec_yds:
  "dbl (total_rec_yds t) = total_rec_yds t \<Longrightarrow>
   total_rec_yds (add_week toNum t w) = nadd (total_rec_yds t) (week_value receiving recv_yds w)"
  by (cases w) (simp_all add: step_simps)

lemma step_rec_td:
  "dbl (total_rec_td t) = total_rec_td t \<Longrightarrow>
   total_rec_td (add_week toNum t w) = nadd (total_rec_td t) (week_value receiving recv_td w)"
  by (cases w) (simp_all add: step_simps)

lemma step_cmp:
  "dbl (total_cmp t) = total_cmp t \<Longrightarrow>
   total_cmp (add_week toNum t w) = nadd (total_cmp t) (fst (week_cmp_att toNum w))"
  by (cases w)
    (simp_all add: add_week_def add_cmpAtt_def week_cmp_att_def tally_read0 nadd_zero_right
      split: option.splits prod.splits)

lemma step_att:
  "dbl (total_att t) = total_att t \<Longrightarrow>
   total_att (add_week toNum t w) = nadd (total_att t) (snd (week_cmp_att toNum w))"
  by (cases w)
    (simp_all add: add_week_def add_cmpAtt_def week_cmp_att_def tally_read0 nadd_zero_right
      split: option.splits prod.splits)

lemma fold_sum:
  assumes step: "\<And>t w. dbl (get t) = get t \<Longrightarrow> get (add_week toNum t w) = nadd (get t) (f w)"
  shows "dbl (get t) = get t \<Longrightarrow>
         get (foldl (add_week toNum) t ws) = foldl nadd (get t) (map f ws)"
proof (induction ws arbitrary: t)
  case Nil
  then show ?case by simp
next
  case (Cons w ws)
  have s: "get (add_week toNum t w) = nadd (get t) (f w)"
    using Cons.prems by (rule step)
  then have "dbl (get (add_week toNum t w)) = get (add_week toNum t w)"
    by (simp add: dbl_nadd)
  from Cons.IH [OF this] s show ?case by simp
qed

lemma loop_totals:
  "total_fpts (foldl (add_week toNum) totals0 ws) = total_of misc misc_fpts ws"
  "total_snaps (foldl (add_week toNum) totals0 ws) = total_of misc misc_num ws"
  "total_pass_yds (foldl (add_week toNum) totals0 ws) = total_of passing pass_yds ws"
  "total_pass_td (foldl (add_week toNum) totals0 ws) = total_of passing pass_td ws"
  "total_int (foldl (add_week toNum) totals0 ws) = total_of passing pass_int ws"
  "total_rush_att (foldl (add_week toNum) totals0 ws) = total_of rushing rush_att ws"
  "total_rush_yds (foldl (add_week toNum) totals0 ws) = total_of rushing rush_yds ws"
  "total_rush_td (foldl (add_week toNum) totals0 ws) = total_of rushing rush_td ws"
  "total_tgts (foldl (add_week toNum) totals0 ws) = total_of receiving recv_tgts ws"
  "total_rec (foldl (add_week toNum) totals0 ws) = total_of receiving recv_rec ws"
  "total_rec_yds (foldl (add_week toNum) totals0 ws) = total_of receiving recv_yds ws"
  "total_rec_td (foldl (add_week toNum) totals0 ws) = total_of receiving recv_td ws"
  "total_cmp (foldl (add_week toNum) totals0 ws) = dsum (map (\<lambda>w. fst (week_cmp_att toNum w)) ws)"
  "total_att (foldl (add_week toNum) totals0 ws) = dsum (map (\<lambda>w. snd (week_cmp_att toNum w)) ws)"
  using fold_sum [where get = total_fpts and f = "week_value misc misc_fpts" and t = totals0 and ws = ws and toNum = toNum, OF step_fpts]
    fold_sum [where get = total_snaps and f = "week_value misc misc_num" and t = totals0 and ws = ws and toNum = toNum, OF step_snaps]
    fold_sum [where get = total_pass_yds and f = "week_value passing pass_yds" and t = totals0 and ws = ws and toNum = toNum, OF step_pass_yds]
    fold_sum [where get = total_pass_td and f = "week_value passing pass_td" and t = totals0 and ws = ws and toNum = toNum, OF step_pass_td]
    fold_sum [where get = total_int and f = "week_value passing pass_int" and t = totals0 and ws = ws and toNum = toNum, OF step_int]
    fold_sum [where get = total_rush_att and f = "week_value rushing rush_att" and t = totals0 and ws = ws and toNum = toNum, OF step_rush_att]
    fold_sum [where get = total_rush_yds and f = "week_value rushing rush_yds" and t = totals0 and ws = ws and toNum = toNum, OF step_rush_yds]
    fold_sum [where get = total_rush_td and f = "week_value rushing rush_td" and t = totals0 and ws = ws and toNum = toNum, OF step_rush_td]
    fold_sum [where get = total_tgts and f = "week_value receiving recv_tgts" and t = totals0 and ws = ws and toNum = toNum, OF step_tgts]
    fold_sum [where get = total_rec and f = "week_value receiving recv_rec" and t = totals0 and ws = ws and toNum = toNum, OF step_rec]
    fold_sum [where get = total_rec_yds and f = "week_value receiving recv_yds" and t = totals0 and ws = ws and toNum = toNum, OF step_rec_yds]
    fold_sum [where get = total_rec_td and f = "week_value receiving recv_td" and t = totals0 and ws = ws and toNum = toNum, OF step_rec_td]
    fold_sum [where get = total_cmp and f = "\<lambda>w. fst (week_cmp_att toNum w)" and t = totals0 and ws = ws and toNum = toNum, OF step_cmp]
    fold_sum [where get = total_att and f = "\<lambda>w. snd (week_cmp_att toNum w)" and t = totals0 and ws = ws and toNum = toNum, OF step_att]
  by (simp_all add: totals0_def total_of_def dsum_def rnd_0)

lemma gt0_read0: "gt0 v = ngt0 (read0 v)"
proof (cases v)
  case (Number n)
  then show ?thesis by (cases n) (simp_all add: gt0_def ngt0_def rnd_0)
qed (simp_all add: gt0_def ngt0_def rnd_0)

lemma gt0_chain: "gt0 (opt_chain (sect wk) field) = ngt0 (week_value sect field (Some wk))"
  by (simp add: gt0_read0 read0_chain week_value_def)

lemma counts_as_game_spec: "counts_as_game w = spec_played w"
proof (cases w)
  case None
  then show ?thesis
    by (simp add: counts_as_game_def spec_played_def week_value_def ngt0_def rnd_0)
next
  case (Some wk)
  then show ?thesis
    by (auto simp: counts_as_game_def spec_played_def gt0_chain)
qed

lemma counts_as_game_eq: "counts_as_game = spec_played"
  by (rule ext) (rule counts_as_game_spec)

lemma aggregate_fields:
  "id' (aggregate toNum player) = id' player"
  "name (aggregate toNum player) = name player"
  "pos (aggregate toNum player) = pos player"
  "team (aggregate toNum player) = team player"
  "games (aggregate toNum player) = length (filter counts_as_game (weeks_of player))"
  "totalFpts (aggregate toNum player) = total_fpts (foldl (add_week toNum) totals0 (weeks_of player))"
  "passYds (aggregate toNum player) = total_pass_yds (foldl (add_week toNum) totals0 (weeks_of player))"
  "passTd (aggregate toNum player) = total_pass_td (foldl (add_week toNum) totals0 (weeks_of player))"
  "int' (aggregate toNum player) = total_int (foldl (add_week toNum) totals0 (weeks_of player))"
  "rushAtt (aggregate toNum player) = total_rush_att (foldl (add_week toNum) totals0 (weeks_of player))"
  "rushYds (aggregate toNum player) = total_rush_yds (foldl (add_week toNum) totals0 (weeks_of player))"
  "rushTd (aggregate toNum player) = total_rush_td (foldl (add_week toNum) totals0 (weeks_of player))"
  "tgts (aggregate toNum player) = total_tgts (foldl (add_week toNum) totals0 (weeks_of player))"
  "rec (aggregate toNum player) = total_rec (foldl (add_week toNum) totals0 (weeks_of player))"
  "recYds (aggregate toNum player) = total_rec_yds (foldl (add_week toNum) totals0 (weeks_of player))"
  "recTd (aggregate toNum player) = total_rec_td (foldl (add_week toNum) totals0 (weeks_of player))"
  "cmpAtt (aggregate toNum player) =
     (if ngt0 (total_att (foldl (add_week toNum) totals0 (weeks_of player)))
      then CmpAtt (total_cmp (foldl (add_week toNum) totals0 (weeks_of player)))
             (total_att (foldl (add_week toNum) totals0 (weeks_of player)))
      else Dash)"
  by (simp_all add: aggregate_def Let_def)

lemma aggregate_averages:
  "avgFpts (aggregate toNum player) =
     (if 0 < games (aggregate toNum player)
      then ndiv (totalFpts (aggregate toNum player)) (Fin (of_nat (games (aggregate toNum player))))
      else Fin 0)"
  "avgSnaps (aggregate toNum player) =
     (if 0 < games (aggregate toNum player)
      then ndiv (total_snaps (foldl (add_week toNum) totals0 (weeks_of player)))
             (Fin (of_nat (games (aggregate toNum player))))
      else Fin 0)"
  by (simp_all add: aggregate_def Let_def)


lemmas eval_weeks =
  example_player_def bench_player_def weeks_of_def week_a_def week_b_def week_idle_def
  total_of_def dsum_def week_value_def week_cmp_att_def cmp_att_pair_def digit_Number_def
  spec_played_def eval_ops



lemma example_totals:
  "total_of misc misc_fpts (weeks_of example_player) = Fin (5404319552844596 / 2 ^ 54)"
  "total_of misc misc_num (weeks_of example_player) = Fin 90"
  "total_of rushing rush_yds (weeks_of example_player) = Fin 75"
  "total_of receiving recv_yds (weeks_of example_player) = Fin 10"
  "total_of passing pass_yds (weeks_of example_player) = Fin 0"
  "dsum (map (\<lambda>w. fst (week_cmp_att digit_Number w)) (weeks_of example_player)) = Fin 1"
  "dsum (map (\<lambda>w. snd (week_cmp_att digit_Number w)) (weeks_of example_player)) = Fin 2"
  "length (filter spec_played (weeks_of example_player)) = 2"
  by (simp_all add: eval_weeks)

lemma bench_totals:
  "total_of misc misc_fpts (weeks_of bench_player) = Fin 0"
  "total_of misc misc_num (weeks_of bench_player) = Fin 55"
  "total_of passing pass_yds (weeks_of bench_player) = Fin 0"
  "total_of passing pass_td (weeks_of bench_player) = Fin 0"
  "total_of passing pass_int (weeks_of bench_player) = Fin 0"
  "total_of rushing rush_att (weeks_of bench_player) = Fin 0"
  "total_of rushing rush_yds (weeks_of bench_player) = Fin 0"
  "total_of rushing rush_td (weeks_of bench_player) = Fin 0"
  "total_of receiving recv_tgts (weeks_of bench_player) = Fin 0"
  "total_of receiving recv_rec (weeks_of bench_player) = Fin 0"
  "total_of receiving recv_yds (weeks_of bench_player) = Fin 0"
  "total_of receiving recv_td (weeks_of bench_player) = Fin 0"
  "dsum (map (\<lambda>w. snd (week_cmp_att toNum w)) (weeks_of bench_player)) = Fin 0"
  "length (filter spec_played (weeks_of bench_player)) = 0"
  by (simp_all add: eval_weeks)




text \<open>
  C10.  \<open>games\<close> counts exactly the weeks with positive fantasy points or positive
  passing, rushing or receiving yards, so a week without any of them is not counted;
  \<open>avgFpts\<close> is the total of the fantasy points divided by that count and \<open>avgSnaps\<close>
  the total of the snaps divided by it, the division being that of double-precision
  arithmetic; both are \<open>0\<close>, and so neither \<open>NaN\<close> nor an infinity, when the count is
  \<open>0\<close>.
\<close>

theorem aggregate_games_and_averages:
  "games (aggregate toNum player) = length (filter spec_played (weeks_of player))
   \<and> avgFpts (aggregate toNum player) =
       (if games (aggregate toNum player) = 0 then Fin 0
        else ndiv (totalFpts (aggregate toNum player))
               (Fin (of_nat (games (aggregate toNum player)))))
   \<and> totalFpts (aggregate toNum player) = total_of misc misc_fpts (weeks_of player)
   \<and> avgSnaps (aggregate toNum player) =
       (if games (aggregate toNum player) = 0 then Fin 0
        else ndiv (total_of misc misc_num (weeks_of player))
               (Fin (of_nat (games (aggregate toNum player)))))"
proof -
  show ?thesis
    by (simp add: aggregate_averages aggregate_fields loop_totals counts_as_game_eq)
qed

theorem aggregate_games_and_averages_witness:
  "length (weeks_of example_player) = 4
   \<and> games (aggregate digit_Number example_player) = 2
   \<and> totalFpts (aggregate digit_Number example_player) = Fin (5404319552844596 / 2 ^ 54)
   \<and> avgFpts (aggregate digit_Number example_player) = Fin (5404319552844596 / 2 ^ 55)
   \<and> avgSnaps (aggregate digit_Number example_player) = Fin 45
   \<and> games (aggregate digit_Number bench_player) = 0
   \<and> avgFpts (aggregate digit_Number bench_player) = Fin 0
   \<and> avgSnaps (aggregate digit_Number bench_player) = Fin 0"
proof -
  have len: "length (weeks_of example_player) = 4" by (simp add: eval_weeks)
  have d1: "ndiv (Fin (5404319552844596 / 2 ^ 54)) (Fin (of_nat 2)) = Fin (5404319552844596 / 2 ^ 55)"
    by (simp add: eval_ops)
  have d2: "ndiv (Fin 90) (Fin (of_nat 2)) = Fin 45"
    by (simp add: eval_ops)
  from aggregate_games_and_averages [of digit_Number example_player]
  have ex: "games (aggregate digit_Number example_player) = 2
      \<and> totalFpts (aggregate digit_Number example_player) = Fin (5404319552844596 / 2 ^ 54)
      \<and> avgFpts (aggregate digit_Number example_player) = Fin (5404319552844596 / 2 ^ 55)
      \<and> avgSnaps (aggregate digit_Number example_player) = Fin 45"
    using d1 d2 by (simp add: example_totals)
  from aggregate_games_and_averages [of digit_Number bench_player]
  have "games (aggregate digit_Number bench_player) = 0
      \<and> avgFpts (aggregate digit_Number bench_player) = Fin 0
      \<and> avgSnaps (aggregate digit_Number bench_player) = Fin 0"
    by (simp add: bench_totals)
  with ex len show ?thesis by blast
qed

section \<open>Properties of the warehouse store\<close>

lemma write_rows_fails:
  "written \<le> n \<Longrightarrow> n < written + length rows \<Longrightarrow>
   write_rows written (Some n) rows tbl = Inl StoreError"
proof (induction rows arbitrary: written tbl)
  case Nil
  then show ?case by simp
next
  case (Cons r rows)
  show ?case
  proof (cases "n = written")
    case True
    then show ?thesis by simp
  next
    case False
    with Cons.prems have "Suc written \<le> n" and "n < Suc written + length rows" by simp_all
    from Cons.IH [OF this] False show ?thesis by simp
  qed
qed

text \<open>
  C2.  A commit of \<open>M\<close> rows that fails after \<open>N < M\<close> of them raises \<open>StoreError\<close> and
  leaves the store exactly as it was: every read returns what it returned before, so
  none of the \<open>N\<close> rows written in the failed transaction is observable.
\<close>

theorem commit_atomic_on_failure:
  assumes "n < length rows"
  shows "commit u rows (Some n) st = (Inl StoreError, st)
     \<and> readWeekly filters (snd (commit u rows (Some n) st)) = readWeekly filters st"
  using write_rows_fails [of 0 n rows] assms by (simp add: commit_def)

theorem commit_atomic_on_failure_witness:
  "(2::nat) < length [row_of ''a'' 3 10, row_of ''b'' 3 4, row_of ''c'' 3 7]
   \<and> commit (2025, 3) [row_of ''a'' 3 10, row_of ''b'' 3 4, row_of ''c'' 3 7] (Some 2)
        [row_of ''a'' 2 8, row_of ''a'' 3 1]
       = (Inl StoreError, [row_of ''a'' 2 8, row_of ''a'' 3 1])
   \<and> commit (2025, 3) [row_of ''a'' 3 10, row_of ''b'' 3 4, row_of ''c'' 3 7] None
        [row_of ''a'' 2 8, row_of ''a'' 3 1]
       = (Inr (), [row_of ''a'' 2 8, row_of ''a'' 3 10, row_of ''b'' 3 4, row_of ''c'' 3 7])"
proof -
  have h: "(2::nat) < length [row_of ''a'' 3 10, row_of ''b'' 3 4, row_of ''c'' 3 7]" by simp
  have ok: "commit (2025, 3) [row_of ''a'' 3 10, row_of ''b'' 3 4, row_of ''c'' 3 7] None
        [row_of ''a'' 2 8, row_of ''a'' 3 1]
       = (Inr (), [row_of ''a'' 2 8, row_of ''a'' 3 10, row_of ''b'' 3 4, row_of ''c'' 3 7])"
    by (simp add: commit_def in_unit_def row_of_def)
  from commit_atomic_on_failure [OF h, of "(2025, 3)" "[row_of ''a'' 2 8, row_of ''a'' 3 1]"] h ok
  show ?thesis by blast
qed

end
